theory Spec2Isabelle
  imports Complex_Main "HOL-Library.Sublist"
begin

section \<open>JavaScript strings and values\<close>

text \<open>
  The backend (\<^verbatim>\<open>backend/src/index.js\<close>) is JavaScript.  A string is modelled as a
  \<^typ>\<open>string\<close> whose characters stand for the UTF-16 code units below 256 (ASCII and
  Latin-1); \<open>length\<close> is the \<^verbatim>\<open>.length\<close> of the source.
\<close>

text \<open>The characters matched by \<^verbatim>\<open>\s\<close> and removed by \<^verbatim>\<open>trim()\<close>:
  TAB, LF, VT, FF, CR, SPACE and NBSP.\<close>

definition isSpace :: "char \<Rightarrow> bool" where
  "isSpace c = ((of_char c :: nat) \<in> {9, 10, 11, 12, 13, 32, 160})"

text \<open>\<^verbatim>\<open>toLowerCase()\<close>: \<open>A\<close>--\<open>Z\<close> and the Latin-1 capitals
  (\<open>0xC0\<close>--\<open>0xDE\<close> without the multiplication sign \<open>0xD7\<close>) move up by 32.\<close>

definition toLowerChar :: "char \<Rightarrow> char" where
  "toLowerChar c =
     (let n = (of_char c :: nat)
      in if (65 \<le> n \<and> n \<le> 90) \<or> (192 \<le> n \<and> n \<le> 222 \<and> n \<noteq> 215)
         then char_of (n + 32) else c)"

definition toLowerCase :: "string \<Rightarrow> string" where
  "toLowerCase s = map toLowerChar s"

definition trim :: "string \<Rightarrow> string" where
  "trim s = rev (dropWhile isSpace (rev (dropWhile isSpace s)))"

text \<open>\<^verbatim>\<open>text.includes(keyword)\<close>: the keyword occurs as a contiguous part of the text.\<close>

definition str_includes :: "string \<Rightarrow> string \<Rightarrow> bool" where
  "str_includes text kw = sublist kw text"

text \<open>\<^verbatim>\<open>xs.join(sep)\<close> on a list of strings.\<close>

fun joinWith :: "string \<Rightarrow> string list \<Rightarrow> string" where
  "joinWith sep [] = []"
| "joinWith sep [x] = x"
| "joinWith sep (x # y # ys) = x @ sep @ joinWith sep (y # ys)"

text \<open>\<^verbatim>\<open>s.replace(/\s+/g, ' ')\<close>: every maximal run of white space becomes one space.
  The flag says whether the previous character belonged to the run being replaced.\<close>

fun collapseFrom :: "bool \<Rightarrow> string \<Rightarrow> string" where
  "collapseFrom inRun [] = []"
| "collapseFrom inRun (c # cs) =
     (if isSpace c
      then (if inRun then collapseFrom True cs else CHR '' '' # collapseFrom True cs)
      else c # collapseFrom False cs)"

definition collapseWhitespace :: "string \<Rightarrow> string" where
  "collapseWhitespace s = collapseFrom False s"

text \<open>
  A number that \<^verbatim>\<open>JSON.parse\<close> can produce is a finite double, kept as the rational it
  denotes, or an infinity (a literal such as \<^verbatim>\<open>1e999\<close> overflows); \<^verbatim>\<open>NaN\<close> has no JSON
  literal.  Negative zero behaves as zero everywhere in this program.
\<close>

datatype jsnum = Finite rat | PosInfinity | NegInfinity

datatype jsval =
    JUndefined
  | JNull
  | JBool bool
  | JNum jsnum
  | JStr string
  | JArr "jsval list"
  | JObj "(string \<times> jsval) list"

text \<open>Truthiness, as used by \<^verbatim>\<open>!x\<close>, \<^verbatim>\<open>x || y\<close> and \<^verbatim>\<open>filter(Boolean)\<close>.\<close>

fun truthy :: "jsval \<Rightarrow> bool" where
  "truthy JUndefined = False"
| "truthy JNull = False"
| "truthy (JBool b) = b"
| "truthy (JNum n) = (n \<noteq> Finite 0)"
| "truthy (JStr s) = (s \<noteq> [])"
| "truthy (JArr xs) = True"
| "truthy (JObj kvs) = True"

fun nullish :: "jsval \<Rightarrow> bool" where
  "nullish JUndefined = True"
| "nullish JNull = True"
| "nullish v = False"

text \<open>\<^verbatim>\<open>a || b\<close> and \<^verbatim>\<open>a ?? b\<close>.\<close>

definition js_or :: "jsval \<Rightarrow> jsval \<Rightarrow> jsval" where
  "js_or a b = (if truthy a then a else b)"

definition js_coalesce :: "jsval \<Rightarrow> jsval \<Rightarrow> jsval" where
  "js_coalesce a b = (if nullish a then b else a)"

text \<open>A thrown JavaScript exception.  Everything thrown inside this program is an
  \<^verbatim>\<open>Error\<close> object with a message.\<close>

datatype exn = TypeError | SyntaxError | BackendError string

text \<open>
  Reading a named property \<^verbatim>\<open>v.k\<close>.  On \<^verbatim>\<open>undefined\<close> and \<^verbatim>\<open>null\<close> it throws; an
  object yields its own property of that name; every other value has none of the
  properties this program asks for (\<open>choices\<close>, \<open>message\<close>, \<open>content\<close>, \<open>text\<close>,
  \<open>value\<close>, \<open>output\<close>, \<open>output_text\<close>, \<open>status\<close>, \<open>evidence\<close>, \<open>reasoning\<close>,
  \<open>confidence\<close>).
\<close>

fun getProp :: "jsval \<Rightarrow> string \<Rightarrow> exn + jsval" where
  "getProp JUndefined k = Inl TypeError"
| "getProp JNull k = Inl TypeError"
| "getProp (JObj kvs) k = Inr (case map_of kvs k of None \<Rightarrow> JUndefined | Some v \<Rightarrow> v)"
| "getProp v k = Inr JUndefined"

text \<open>Optional chaining \<^verbatim>\<open>v?.k\<close>: never throws.\<close>

fun getPropOpt :: "jsval \<Rightarrow> string \<Rightarrow> jsval" where
  "getPropOpt (JObj kvs) k = (case map_of kvs k of None \<Rightarrow> JUndefined | Some v \<Rightarrow> v)"
| "getPropOpt v k = JUndefined"

text \<open>\<^verbatim>\<open>v?.[0]\<close>: the first element of an array, the first character of a string, the
  property \<open>0\<close> of an object.\<close>

fun getFirstOpt :: "jsval \<Rightarrow> jsval" where
  "getFirstOpt (JArr xs) = (case xs of [] \<Rightarrow> JUndefined | x # _ \<Rightarrow> x)"
| "getFirstOpt (JStr s) = (case s of [] \<Rightarrow> JUndefined | c # _ \<Rightarrow> JStr [c])"
| "getFirstOpt (JObj kvs) = (case map_of kvs ''0'' of None \<Rightarrow> JUndefined | Some v \<Rightarrow> v)"
| "getFirstOpt v = JUndefined"

text \<open>
  The two built-ins of the runtime that the program relies on and that are not part of
  it: \<^verbatim>\<open>JSON.parse\<close> (\<open>None\<close> when it throws a \<^verbatim>\<open>SyntaxError\<close>) and the conversion of
  a number to a string.  Every theorem below holds for whatever they compute.
\<close>

record runtime =
  jsonParse :: "string \<Rightarrow> jsval option"
  numberToString :: "jsnum \<Rightarrow> string"

text \<open>\<^verbatim>\<open>String(v)\<close>, the conversion \<^verbatim>\<open>Array.prototype.join\<close> and \<^verbatim>\<open>JSON.parse\<close> apply to
  their arguments.  Inside an array \<^verbatim>\<open>undefined\<close> and \<^verbatim>\<open>null\<close> become the empty string.\<close>

fun jsToString :: "(jsnum \<Rightarrow> string) \<Rightarrow> jsval \<Rightarrow> string" where
  "jsToString ns JUndefined = ''undefined''"
| "jsToString ns JNull = ''null''"
| "jsToString ns (JBool b) = (if b then ''true'' else ''false'')"
| "jsToString ns (JNum n) = ns n"
| "jsToString ns (JStr s) = s"
| "jsToString ns (JArr xs) =
     joinWith '','' (map (\<lambda>x. if nullish x then [] else jsToString ns x) xs)"
| "jsToString ns (JObj kvs) = ''[object Object]''"

text \<open>\<^verbatim>\<open>xs.join(sep)\<close> on an array of arbitrary values.\<close>

definition joinVals :: "(jsnum \<Rightarrow> string) \<Rightarrow> string \<Rightarrow> jsval list \<Rightarrow> string" where
  "joinVals ns sep xs = joinWith sep (map (\<lambda>x. if nullish x then [] else jsToString ns x) xs)"

section \<open>The heuristic evaluator\<close>

text \<open>The verdict object.  \<open>evidence\<close> and \<open>reasoning\<close> hold whatever value the code
  stores there, so they are JavaScript values.\<close>

record verdict =
  rule :: string
  status :: string
  evidence :: jsval
  reasoning :: jsval
  confidence :: jsnum
  source :: string

definition isAlnumLower :: "char \<Rightarrow> bool" where
  "isAlnumLower c =
     (let n = (of_char c :: nat) in (97 \<le> n \<and> n \<le> 122) \<or> (48 \<le> n \<and> n \<le> 57))"

text \<open>\<^verbatim>\<open>s.match(/[a-z0-9]+/g) || []\<close>: the maximal runs of \<open>a\<close>--\<open>z\<close>, \<open>0\<close>--\<open>9\<close>, left to
  right; \<open>cur\<close> is the run being read.  No match gives \<^verbatim>\<open>null\<close>, replaced by the
  empty list.\<close>

fun matchAlnum :: "string \<Rightarrow> string \<Rightarrow> string list" where
  "matchAlnum cur [] = (if cur = [] then [] else [cur])"
| "matchAlnum cur (c # cs) =
     (if isAlnumLower c then matchAlnum (cur @ [c]) cs
      else (if cur = [] then [] else [cur]) @ matchAlnum [] cs)"

definition isSentenceEnd :: "char \<Rightarrow> bool" where
  "isSentenceEnd c = (c = CHR ''.'' \<or> c = CHR ''!'' \<or> c = CHR ''?'')"

text \<open>
  \<^verbatim>\<open>s.split(/(?<=[.!?])\s+/)\<close>: a separator is a maximal run of white space that
  follows one of \<open>. ! ?\<close>.  \<open>cur\<close> is the piece being read, \<open>inSep\<close> says that a
  separator is being skipped.
\<close>

fun splitSentences :: "bool \<Rightarrow> string \<Rightarrow> string \<Rightarrow> string list" where
  "splitSentences inSep cur [] = [cur]"
| "splitSentences inSep cur (c # cs) =
     (if inSep \<and> isSpace c then splitSentences True cur cs
      else if isSpace c \<and> cur \<noteq> [] \<and> isSentenceEnd (last cur)
           then cur # splitSentences True [] cs
      else splitSentences False (cur @ [c]) cs)"

definition sentenceSplitter :: "string \<Rightarrow> string list" where
  "sentenceSplitter text =
     filter (\<lambda>s. s \<noteq> []) (splitSentences False [] (collapseWhitespace text))"

definition keywordsOf :: "string \<Rightarrow> string list" where
  "keywordsOf cleanRule =
     take 6 (filter (\<lambda>word. length word > 4) (matchAlnum [] (toLowerCase cleanRule)))"

definition matchesOf :: "string list \<Rightarrow> string \<Rightarrow> string list" where
  "matchesOf keywords documentText =
     filter (\<lambda>keyword. str_includes (toLowerCase documentText) keyword) keywords"

text \<open>\<^verbatim>\<open>Math.max(1, Math.ceil(keywords.length * 0.4))\<close>.  There are at most six keywords,
  and for 0 to 6 the double product has the ceiling of the exact one (0, 1, 1, 2, 2, 2, 3).\<close>

definition thresholdOf :: "nat \<Rightarrow> int" where
  "thresholdOf n = max 1 \<lceil>rat_of_nat n * (4 / 10)\<rceil>"

definition buildFallbackResult :: "string \<Rightarrow> string \<Rightarrow> verdict" where
  "buildFallbackResult rule0 documentText =
     (let cleanRule = trim rule0;
          keywords = keywordsOf cleanRule;
          matches = matchesOf keywords documentText;
          threshold = thresholdOf (length keywords);
          status0 = (if int (length matches) \<ge> threshold then ''pass'' else ''fail'');
          sentences = sentenceSplitter documentText;
          evidenceSentence =
            (if length matches > 0
             then find (\<lambda>sentence.
                    list_ex (\<lambda>keyword. str_includes (toLowerCase sentence) (toLowerCase keyword))
                      matches) sentences
             else None)
      in \<lparr> rule = cleanRule,
           status = status0,
           evidence = JStr (case evidenceSentence of
                              Some s \<Rightarrow> s
                            | None \<Rightarrow> ''No direct evidence found.''),
           reasoning = JStr (if status0 = ''pass''
                             then ''Heuristic match for keywords: '' @
                                  (if joinWith '', '' matches \<noteq> [] then joinWith '', '' matches
                                   else ''n/a'') @ ''.''
                             else ''Keywords from the rule were not found in the document text.''),
           confidence = (if status0 = ''pass'' then Finite 55 else Finite 35),
           source = ''heuristic'' \<rparr>)"

section \<open>The response normalizer\<close>

text \<open>\<^verbatim>\<open>xs.indexOf(x)\<close> and \<^verbatim>\<open>xs.lastIndexOf(x)\<close>, on the characters of a string or the
  elements of an array; \<open>None\<close> stands for \<open>-1\<close>.\<close>

fun indexOf :: "'a \<Rightarrow> 'a list \<Rightarrow> nat option" where
  "indexOf x [] = None"
| "indexOf x (y # ys) = (if y = x then Some 0 else map_option Suc (indexOf x ys))"

definition lastIndexOf :: "'a \<Rightarrow> 'a list \<Rightarrow> nat option" where
  "lastIndexOf x xs = map_option (\<lambda>i. length xs - 1 - i) (indexOf x (rev xs))"

text \<open>\<^verbatim>\<open>xs.slice(a, b)\<close> for indices within the list; empty when \<open>b \<le> a\<close>.\<close>

definition slice :: "'a list \<Rightarrow> nat \<Rightarrow> nat \<Rightarrow> 'a list" where
  "slice xs a b = take (b - a) (drop a xs)"

text \<open>\<^verbatim>\<open>Math.round\<close> (halves go up), \<^verbatim>\<open>Math.max\<close> and \<^verbatim>\<open>Math.min\<close>.\<close>

fun mathRound :: "jsnum \<Rightarrow> jsnum" where
  "mathRound (Finite q) = Finite (of_int \<lfloor>q + 1 / 2\<rfloor>)"
| "mathRound PosInfinity = PosInfinity"
| "mathRound NegInfinity = NegInfinity"

fun num_le :: "jsnum \<Rightarrow> jsnum \<Rightarrow> bool" where
  "num_le NegInfinity b = True"
| "num_le a PosInfinity = True"
| "num_le (Finite p) (Finite q) = (p \<le> q)"
| "num_le a b = False"

definition mathMax :: "jsnum \<Rightarrow> jsnum \<Rightarrow> jsnum" where
  "mathMax a b = (if num_le a b then b else a)"

definition mathMin :: "jsnum \<Rightarrow> jsnum \<Rightarrow> jsnum" where
  "mathMin a b = (if num_le a b then a else b)"

text \<open>\<^verbatim>\<open>Math.min(100, Math.max(0, Math.round(x)))\<close>.\<close>

definition clampConfidence :: "jsnum \<Rightarrow> jsnum" where
  "clampConfidence x = mathMin (Finite 100) (mathMax (Finite 0) (mathRound x))"

text \<open>\<^verbatim>\<open>parsed.status?.toLowerCase() === 'pass'\<close>: an absent or \<^verbatim>\<open>null\<close> status gives
  \<^verbatim>\<open>undefined\<close>; a string is lowered; any other value has no \<^verbatim>\<open>toLowerCase\<close>, and
  calling it throws.\<close>

fun statusIsPass :: "jsval \<Rightarrow> exn + bool" where
  "statusIsPass JUndefined = Inr False"
| "statusIsPass JNull = Inr False"
| "statusIsPass (JStr s) = Inr (toLowerCase s = ''pass'')"
| "statusIsPass v = Inl TypeError"

text \<open>The object literal returned by \<^verbatim>\<open>parseLLMJson\<close> once \<^verbatim>\<open>JSON.parse\<close> has
  succeeded.\<close>

definition fromParsed :: "jsval \<Rightarrow> verdict \<Rightarrow> string \<Rightarrow> exn + verdict" where
  "fromParsed parsed fallback source0 =
     (case getProp parsed ''status'' of
        Inl e \<Rightarrow> Inl e
      | Inr st \<Rightarrow>
          (case statusIsPass st of
             Inl e \<Rightarrow> Inl e
           | Inr isPass \<Rightarrow>
               Inr \<lparr> rule = rule fallback,
                     status = (if isPass then ''pass'' else ''fail''),
                     evidence = js_or (getPropOpt parsed ''evidence'') (evidence fallback),
                     reasoning = js_or (getPropOpt parsed ''reasoning'') (reasoning fallback),
                     confidence =
                       (case getPropOpt parsed ''confidence'' of
                          JNum n \<Rightarrow> clampConfidence n
                        | _ \<Rightarrow> confidence fallback),
                     source = source0 \<rparr>))"

text \<open>
  The body of the \<^verbatim>\<open>try\<close> block of \<^verbatim>\<open>parseLLMJson\<close>.  A string is searched for its
  first \<open>{\<close> and last \<open>}\<close>.  An array has \<^verbatim>\<open>indexOf\<close>, \<^verbatim>\<open>lastIndexOf\<close> and \<^verbatim>\<open>slice\<close>
  as well (they look for the elements \<open>"{"\<close> and \<open>"}"\<close>), and \<^verbatim>\<open>JSON.parse\<close> converts the
  slice to a string.  No other value has an \<^verbatim>\<open>indexOf\<close> to call.
\<close>

definition parseLLMJsonBody :: "runtime \<Rightarrow> jsval \<Rightarrow> verdict \<Rightarrow> string \<Rightarrow> exn + verdict" where
  "parseLLMJsonBody rt content fallback source0 =
     (case content of
        JStr s \<Rightarrow>
          (case (indexOf (CHR ''{'') s, lastIndexOf (CHR ''}'') s) of
             (Some start, Some end) \<Rightarrow>
               (case jsonParse rt (slice s start (end + 1)) of
                  None \<Rightarrow> Inl SyntaxError
                | Some parsed \<Rightarrow> fromParsed parsed fallback source0)
           | _ \<Rightarrow> Inr fallback)
      | JArr xs \<Rightarrow>
          (case (indexOf (JStr ''{'') xs, lastIndexOf (JStr ''}'') xs) of
             (Some start, Some end) \<Rightarrow>
               (case jsonParse rt
                       (jsToString (numberToString rt) (JArr (slice xs start (end + 1)))) of
                  None \<Rightarrow> Inl SyntaxError
                | Some parsed \<Rightarrow> fromParsed parsed fallback source0)
           | _ \<Rightarrow> Inr fallback)
      | _ \<Rightarrow> Inl TypeError)"

text \<open>\<^verbatim>\<open>parseLLMJson\<close>: the \<^verbatim>\<open>catch\<close> clause returns the fallback.\<close>

definition parseLLMJson :: "runtime \<Rightarrow> jsval \<Rightarrow> verdict \<Rightarrow> string \<Rightarrow> verdict" where
  "parseLLMJson rt content fallback source0 =
     (case parseLLMJsonBody rt content fallback source0 of
        Inl e \<Rightarrow> fallback
      | Inr v \<Rightarrow> v)"

section \<open>Backends and the evaluation of one rule\<close>

text \<open>
  A backend client is an SDK object; calling it sends the prompt over the network.
  The awaited call either rejects with an error or resolves to a response value.  The
  first argument is the position of the call within its batch: two calls may be answered
  differently even on the same prompt.
\<close>

datatype outcome = Rejects string | Resolves jsval

type_synonym client = "nat \<Rightarrow> string \<Rightarrow> outcome"

text \<open>The module-level variables \<^verbatim>\<open>activeProvider\<close>, \<^verbatim>\<open>openai\<close>, \<^verbatim>\<open>mistral\<close> and
  \<^verbatim>\<open>groq\<close> (\<open>None\<close> is \<^verbatim>\<open>null\<close>).\<close>

record registry =
  activeProvider :: string
  openai :: "client option"
  mistral :: "client option"
  groq :: "client option"

text \<open>The environment read at start-up: the trimmed keys, \<^verbatim>\<open>LLM_PROVIDER\<close> in lower
  case and the model names (\<open>None\<close> when the variable is unset).\<close>

record config =
  openAiKey :: "string option"
  mistralKey :: "string option"
  groqKey :: "string option"
  providerPreference :: "string option"
  openAiModel :: "string option"
  mistralModel :: "string option"
  groqModel :: "string option"

text \<open>What the three SDK constructors return.\<close>

record sdks =
  newOpenAI :: client
  newMistral :: client
  newGroq :: client

definition keyMissing :: "string option \<Rightarrow> bool" where
  "keyMissing k = (case k of None \<Rightarrow> True | Some s \<Rightarrow> s = [])"

definition resolveOpenAI :: "config \<Rightarrow> sdks \<Rightarrow> registry \<Rightarrow> registry" where
  "resolveOpenAI cfg sdk reg =
     (if keyMissing (openAiKey cfg) then reg
      else reg\<lparr> openai := Some (newOpenAI sdk), activeProvider := ''openai'' \<rparr>)"

definition resolveMistral :: "config \<Rightarrow> sdks \<Rightarrow> registry \<Rightarrow> registry" where
  "resolveMistral cfg sdk reg =
     (if keyMissing (mistralKey cfg) then reg
      else reg\<lparr> mistral := Some (newMistral sdk), activeProvider := ''mistral'' \<rparr>)"

definition resolveGroq :: "config \<Rightarrow> sdks \<Rightarrow> registry \<Rightarrow> registry" where
  "resolveGroq cfg sdk reg =
     (if keyMissing (groqKey cfg) then reg
      else reg\<lparr> groq := Some (newGroq sdk), activeProvider := ''groq'' \<rparr>)"

text \<open>The start-up code of the module (lines 23 to 71).\<close>

definition initRegistry :: "config \<Rightarrow> sdks \<Rightarrow> registry" where
  "initRegistry cfg sdk =
     (let reg0 = \<lparr> activeProvider = ''heuristic'', openai = None, mistral = None, groq = None \<rparr>
      in if providerPreference cfg = Some ''openai'' then resolveOpenAI cfg sdk reg0
         else if providerPreference cfg = Some ''mistral'' then resolveMistral cfg sdk reg0
         else if providerPreference cfg = Some ''groq'' then resolveGroq cfg sdk reg0
         else if \<not> keyMissing (openAiKey cfg) then resolveOpenAI cfg sdk reg0
         else if \<not> keyMissing (mistralKey cfg) then resolveMistral cfg sdk reg0
         else if \<not> keyMissing (groqKey cfg) then resolveGroq cfg sdk reg0
         else reg0)"

definition newline :: string where
  "newline = [CHR 0x0A]"

definition dquote :: string where
  "dquote = [CHR 0x22]"

definition extractGroqText :: "runtime \<Rightarrow> jsval \<Rightarrow> string" where
  "extractGroqText rt response =
     (if \<not> truthy response then []
      else case getPropOpt response ''output_text'' of
             JStr s \<Rightarrow> s
           | JArr xs \<Rightarrow> joinVals (numberToString rt) newline xs
           | _ \<Rightarrow>
             (case getPropOpt response ''output'' of
                JArr items \<Rightarrow>
                  joinWith newline
                    (map (\<lambda>item.
                            case getPropOpt item ''content'' of
                              JArr chunks \<Rightarrow>
                                joinVals (numberToString rt) []
                                  (map (\<lambda>chunk.
                                          js_or (js_or (getPropOpt (getPropOpt chunk ''text'') ''value'')
                                                       (getPropOpt chunk ''text''))
                                                (JStr []))
                                     chunks)
                            | _ \<Rightarrow> [])
                       items)
              | _ \<Rightarrow> []))"

text \<open>\<^verbatim>\<open>'text' in chunk ? chunk.text : chunk?.content ?? ''\<close>; the operator \<^verbatim>\<open>in\<close> throws
  unless its right operand is an object (an array is one, and has no \<open>text\<close>).\<close>

fun mistralChunk :: "jsval \<Rightarrow> exn + jsval" where
  "mistralChunk (JObj kvs) =
     Inr (case map_of kvs ''text'' of
            Some v \<Rightarrow> v
          | None \<Rightarrow> js_coalesce (getPropOpt (JObj kvs) ''content'') (JStr []))"
| "mistralChunk (JArr xs) = Inr (JStr [])"
| "mistralChunk v = Inl TypeError"

text \<open>\<^verbatim>\<open>xs.map(f)\<close> where \<open>f\<close> may throw: the first exception ends the loop.\<close>

fun mapThrowing :: "('a \<Rightarrow> exn + 'b) \<Rightarrow> 'a list \<Rightarrow> exn + 'b list" where
  "mapThrowing f [] = Inr []"
| "mapThrowing f (x # xs) =
     (case f x of
        Inl e \<Rightarrow> Inl e
      | Inr y \<Rightarrow> (case mapThrowing f xs of Inl e \<Rightarrow> Inl e | Inr ys \<Rightarrow> Inr (y # ys)))"

definition buildPrompt :: "string \<Rightarrow> string \<Rightarrow> string" where
  "buildPrompt rule0 documentText =
     newline @ ''You are validating whether a PDF document satisfies a specific rule.'' @ newline
     @ ''Return strict JSON with the keys: status ('' @ dquote @ ''pass'' @ dquote @ '' or ''
     @ dquote @ ''fail'' @ dquote @ ''), evidence (short quote),'' @ newline
     @ ''reasoning (one sentence), confidence (0-100 integer).'' @ newline @ newline
     @ ''Rule: '' @ dquote @ rule0 @ dquote @ newline
     @ ''Document text:'' @ newline
     @ dquote @ dquote @ dquote @ newline
     @ documentText @ newline
     @ dquote @ dquote @ dquote @ newline
     @ ''JSON Response:'' @ newline"

text \<open>\<^verbatim>\<open>completion.choices?.[0]?.message?.content\<close>; only the first access can throw.\<close>

definition firstMessageContent :: "jsval \<Rightarrow> exn + jsval" where
  "firstMessageContent completion =
     (case getProp completion ''choices'' of
        Inl e \<Rightarrow> Inl e
      | Inr choices \<Rightarrow> Inr (getPropOpt (getPropOpt (getFirstOpt choices) ''message'') ''content''))"

definition openaiBranch :: "runtime \<Rightarrow> outcome \<Rightarrow> verdict \<Rightarrow> exn + verdict" where
  "openaiBranch rt res fallback =
     (case res of
        Rejects m \<Rightarrow> Inl (BackendError m)
      | Resolves completion \<Rightarrow>
          (case firstMessageContent completion of
             Inl e \<Rightarrow> Inl e
           | Inr content \<Rightarrow>
               if \<not> truthy content then Inr fallback
               else Inr (parseLLMJson rt content fallback ''openai'')))"

text \<open>The text of a Mistral completion: the content itself when it is a string, the
  joined texts of its chunks when it is an array, else the empty string.\<close>

definition mistralContent :: "runtime \<Rightarrow> jsval \<Rightarrow> exn + string" where
  "mistralContent rt completion =
     (case firstMessageContent completion of
        Inl e \<Rightarrow> Inl e
      | Inr messageContent \<Rightarrow>
          (case messageContent of
             JStr s \<Rightarrow> Inr s
           | JArr chunks \<Rightarrow>
               (case mapThrowing mistralChunk chunks of
                  Inl e \<Rightarrow> Inl e
                | Inr texts \<Rightarrow> Inr (joinVals (numberToString rt) newline texts))
           | _ \<Rightarrow> Inr []))"

definition mistralBranch :: "runtime \<Rightarrow> outcome \<Rightarrow> verdict \<Rightarrow> exn + verdict" where
  "mistralBranch rt res fallback =
     (case res of
        Rejects m \<Rightarrow> Inl (BackendError m)
      | Resolves completion \<Rightarrow>
          (case mistralContent rt completion of
             Inl e \<Rightarrow> Inl e
           | Inr content \<Rightarrow>
               if content = [] then Inr fallback
               else Inr (parseLLMJson rt (JStr content) fallback ''mistral'')))"

definition groqBranch :: "runtime \<Rightarrow> outcome \<Rightarrow> verdict \<Rightarrow> exn + verdict" where
  "groqBranch rt res fallback =
     (case res of
        Rejects m \<Rightarrow> Inl (BackendError m)
      | Resolves response \<Rightarrow>
          (let content = extractGroqText rt response
           in if content = [] then Inr fallback
              else Inr (parseLLMJson rt (JStr content) fallback ''groq'')))"

text \<open>The body of the \<^verbatim>\<open>try\<close> block of \<^verbatim>\<open>evaluateRuleWithLLM\<close>.\<close>

definition llmAttempt ::
  "runtime \<Rightarrow> registry \<Rightarrow> nat \<Rightarrow> string \<Rightarrow> string \<Rightarrow> verdict \<Rightarrow> exn + verdict" where
  "llmAttempt rt reg k effectiveProvider prompt fallback =
     (case (if effectiveProvider = ''openai'' then openai reg else None) of
        Some c \<Rightarrow> openaiBranch rt (c k prompt) fallback
      | None \<Rightarrow>
     (case (if effectiveProvider = ''mistral'' then mistral reg else None) of
        Some c \<Rightarrow> mistralBranch rt (c k prompt) fallback
      | None \<Rightarrow>
     (case (if effectiveProvider = ''groq'' then groq reg else None) of
        Some c \<Rightarrow> groqBranch rt (c k prompt) fallback
      | None \<Rightarrow> Inr fallback)))"

text \<open>
  \<^verbatim>\<open>evaluateRuleWithLLM(rule, documentText, provider)\<close>, as the \<open>k\<close>-th call of a batch.
  \<open>provider\<close> is \<open>None\<close> for \<^verbatim>\<open>undefined\<close>, and \<open>providerOrActive\<close> is
  \<^verbatim>\<open>provider || activeProvider\<close>.  The \<^verbatim>\<open>catch\<close> clause logs the message of the error and
  returns the fallback.
\<close>

definition providerOrActive :: "registry \<Rightarrow> string option \<Rightarrow> string" where
  "providerOrActive reg provider =
     (case provider of
        None \<Rightarrow> activeProvider reg
      | Some p \<Rightarrow> if p \<noteq> [] then p else activeProvider reg)"

definition evaluateRuleWithLLM ::
  "runtime \<Rightarrow> registry \<Rightarrow> nat \<Rightarrow> string \<Rightarrow> string \<Rightarrow> string option \<Rightarrow> verdict" where
  "evaluateRuleWithLLM rt reg k rule0 documentText provider =
     (let effectiveProvider = providerOrActive reg provider
      in if effectiveProvider = ''heuristic''
            \<or> (openai reg = None \<and> mistral reg = None \<and> groq reg = None)
         then buildFallbackResult rule0 documentText
         else
           (let fallback = buildFallbackResult rule0 documentText;
                prompt = buildPrompt rule0 documentText
            in case llmAttempt rt reg k effectiveProvider prompt fallback of
                 Inl e \<Rightarrow> fallback
               | Inr v \<Rightarrow> v))"

section \<open>The request handler\<close>

text \<open>
  What the PDF parser of \<^verbatim>\<open>pdf-parse\<close> does with a file: \<^verbatim>\<open>getText()\<close> rejects or
  resolves to a result with the fields \<open>text\<close> and \<open>total\<close>, and \<^verbatim>\<open>destroy()\<close> in the
  \<^verbatim>\<open>finally\<close> clause may reject as well.
\<close>

record pdf_run =
  getText :: "string + (jsval \<times> jsval)"
  destroyFails :: bool

text \<open>The cleaning steps of \<^verbatim>\<open>extractTextFromPdf\<close>:
  \<^verbatim>\<open>.replace(/\s+/g, ' ').replace(/\u0000/g, '').trim()\<close>.\<close>

definition cleanText :: "string \<Rightarrow> string" where
  "cleanText s = trim (filter (\<lambda>c. c \<noteq> CHR 0x00) (collapseWhitespace s))"

text \<open>\<^verbatim>\<open>extractTextFromPdf\<close>.  An absent text gives the empty string; a text that is not
  a string has no \<^verbatim>\<open>replace\<close> to call.  \<open>pageCount\<close> is \<^verbatim>\<open>textResult.total || null\<close>.\<close>

definition extractTextFromPdf :: "pdf_run \<Rightarrow> exn + (string \<times> jsval)" where
  "extractTextFromPdf run =
     (let body =
            (case getText run of
               Inl m \<Rightarrow> Inl (BackendError m)
             | Inr (txt, tot) \<Rightarrow>
                 (case txt of
                    JUndefined \<Rightarrow> Inr ([], js_or tot JNull)
                  | JNull \<Rightarrow> Inr ([], js_or tot JNull)
                  | JStr s \<Rightarrow> Inr (cleanText s, js_or tot JNull)
                  | _ \<Rightarrow> Inl TypeError))
      in if destroyFails run then Inl (BackendError ''destroy'') else body)"

definition truncateText :: "string \<Rightarrow> nat \<Rightarrow> string" where
  "truncateText text limit = (if length text > limit then take limit text else text)"

text \<open>The text every rule of a request is evaluated against, from the text the parser
  extracted.\<close>

definition documentTextOf :: "string \<Rightarrow> string" where
  "documentTextOf extracted = truncateText (cleanText extracted) 12000"

text \<open>The request as the handler sees it: \<^verbatim>\<open>req.file\<close> (its buffer, as \<open>pdfFile\<close>),
  \<^verbatim>\<open>req.body.rules\<close> and \<^verbatim>\<open>req.body.provider\<close>.\<close>

record request =
  pdfFile :: "string option"
  rawRules :: jsval
  rawProvider :: jsval

record meta =
  pageCount :: jsval
  model :: string
  textLength :: nat

datatype response =
    Rejected nat string
  | Success meta "verdict list"

text \<open>Lines 299 to 308: the rule list as sent, or what \<^verbatim>\<open>JSON.parse\<close> makes of the
  field, or the field itself as the single rule when it is not JSON.\<close>

definition rulesOf :: "runtime \<Rightarrow> jsval \<Rightarrow> jsval" where
  "rulesOf rt raw =
     (case raw of
        JArr xs \<Rightarrow> JArr xs
      | _ \<Rightarrow> (case jsonParse rt (jsToString (numberToString rt) raw) of
                Some v \<Rightarrow> v
              | None \<Rightarrow> JArr [raw]))"

text \<open>Lines 310 to 313; only an array has a \<^verbatim>\<open>map\<close> to call.\<close>

definition cleanRules :: "jsval list \<Rightarrow> string list" where
  "cleanRules xs =
     filter (\<lambda>r. r \<noteq> []) (map (\<lambda>r. case r of JStr s \<Rightarrow> trim s | _ \<Rightarrow> []) xs)"

definition normalizeRules :: "jsval \<Rightarrow> exn + string list" where
  "normalizeRules rules =
     (case rules of
        JArr xs \<Rightarrow> Inr (take 10 (cleanRules xs))
      | _ \<Rightarrow> Inl TypeError)"

definition allowedProviders :: "string list" where
  "allowedProviders = [''groq'', ''mistral'', ''openai'', ''heuristic'']"

text \<open>Lines 319 to 328.\<close>

definition effectiveProviderOf :: "registry \<Rightarrow> jsval \<Rightarrow> string" where
  "effectiveProviderOf reg raw =
     (let requestedProvider = (case raw of JStr s \<Rightarrow> Some (trim (toLowerCase s)) | _ \<Rightarrow> None)
      in case requestedProvider of
           Some p \<Rightarrow> if p \<noteq> [] \<and> p \<in> set allowedProviders then p else activeProvider reg
         | None \<Rightarrow> activeProvider reg)"

text \<open>Lines 339 to 343: \<^verbatim>\<open>Promise.all\<close> over the mapped rules.  The promises settle
  independently and \<^verbatim>\<open>Promise.all\<close> delivers the results by position.\<close>

definition evaluateAll ::
  "runtime \<Rightarrow> registry \<Rightarrow> string list \<Rightarrow> string \<Rightarrow> string \<Rightarrow> verdict list" where
  "evaluateAll rt reg rules documentText effectiveProvider =
     map (\<lambda>(k, r). evaluateRuleWithLLM rt reg k r documentText (Some effectiveProvider))
       (enumerate 0 rules)"

definition orDefault :: "string option \<Rightarrow> string \<Rightarrow> string" where
  "orDefault v d = (case v of None \<Rightarrow> d | Some s \<Rightarrow> if s \<noteq> [] then s else d)"

definition resolvedModel :: "config \<Rightarrow> string \<Rightarrow> string" where
  "resolvedModel cfg effectiveProvider =
     (if effectiveProvider = ''groq'' then orDefault (groqModel cfg) ''openai/gpt-oss-20b''
      else if effectiveProvider = ''mistral''
           then orDefault (mistralModel cfg) ''mistral-medium-latest''
      else if effectiveProvider = ''openai'' then orDefault (openAiModel cfg) ''gpt-4o-mini''
      else ''heuristic'')"

text \<open>The handler of \<^verbatim>\<open>POST /api/check\<close>.  Any exception inside it is answered with
  status 500.\<close>

definition unexpected :: response where
  "unexpected = Rejected 500 ''An unexpected error occurred while checking the document.''"

definition checkHandler ::
  "runtime \<Rightarrow> config \<Rightarrow> registry \<Rightarrow> (string \<Rightarrow> pdf_run) \<Rightarrow> request \<Rightarrow> response" where
  "checkHandler rt cfg reg pdf req =
     (case pdfFile req of
        None \<Rightarrow> Rejected 400 ''PDF file is required.''
      | Some buffer \<Rightarrow>
          if \<not> truthy (rawRules req) then Rejected 400 ''At least one rule is required.''
          else
            (case normalizeRules (rulesOf rt (rawRules req)) of
               Inl e \<Rightarrow> unexpected
             | Inr normalizedRules \<Rightarrow>
                 if normalizedRules = [] then Rejected 400 ''Rules must be non-empty text.''
                 else
                   (let effectiveProvider = effectiveProviderOf reg (rawProvider req)
                    in case extractTextFromPdf (pdf buffer) of
                         Inl e \<Rightarrow> unexpected
                       | Inr (text, pages) \<Rightarrow>
                           (let documentText = truncateText text 12000
                            in if documentText = []
                               then Rejected 422 ''Could not extract text from the PDF.''
                               else Success
                                      \<lparr> pageCount = pages,
                                        model = resolvedModel cfg effectiveProvider,
                                        textLength = length documentText \<rparr>
                                      (evaluateAll rt reg normalizedRules documentText
                                         effectiveProvider)))))"

section \<open>Notions used to state the properties\<close>

text \<open>The client that a provider name selects inside \<^verbatim>\<open>evaluateRuleWithLLM\<close>, if that
  client exists.\<close>

definition clientOf :: "registry \<Rightarrow> string \<Rightarrow> client option" where
  "clientOf reg p =
     (if p = ''openai'' then openai reg
      else if p = ''mistral'' then mistral reg
      else if p = ''groq'' then groq reg
      else None)"

text \<open>A backend call has failed when it rejected, when unwrapping its response threw, or
  when the unwrapped payload is empty.\<close>

definition callFailed :: "runtime \<Rightarrow> string \<Rightarrow> outcome \<Rightarrow> bool" where
  "callFailed rt p res =
     (case res of
        Rejects m \<Rightarrow> True
      | Resolves r \<Rightarrow>
          (if p = ''openai''
           then (case firstMessageContent r of Inl e \<Rightarrow> True | Inr c \<Rightarrow> \<not> truthy c)
           else if p = ''mistral''
           then (case mistralContent rt r of Inl e \<Rightarrow> True | Inr c \<Rightarrow> c = [])
           else extractGroqText rt r = []))"

text \<open>The C0 and C1 control characters and DEL.\<close>

definition isControl :: "char \<Rightarrow> bool" where
  "isControl c = (let n = (of_char c :: nat) in n < 32 \<or> (127 \<le> n \<and> n < 160))"

text \<open>No white space other than single spaces: every white-space character is a space
  and no two of them are adjacent.\<close>

fun singleSpaced :: "string \<Rightarrow> bool" where
  "singleSpaced [] = True"
| "singleSpaced [c] = (isSpace c \<longrightarrow> c = CHR '' '')"
| "singleSpaced (c # d # cs) =
     ((isSpace c \<longrightarrow> c = CHR '' '' \<and> \<not> isSpace d) \<and> singleSpaced (d # cs))"

fun isRejected :: "response \<Rightarrow> bool" where
  "isRejected (Rejected code msg) = True"
| "isRejected (Success m vs) = False"

section \<open>Example inputs\<close>

text \<open>Backend answers and request fields, and a runtime whose \<^verbatim>\<open>JSON.parse\<close> is given on
  exactly these texts (every other text used below is not JSON).  The numbers are the
  doubles nearest to \<open>132.7\<close> and \<open>73.4\<close>; the only number an example could turn into a
  string is 5.\<close>

definition quoted :: "string \<Rightarrow> string" where
  "quoted s = dquote @ s @ dquote"

definition statusNotTextAnswer :: string where
  "statusNotTextAnswer =
     ''{'' @ quoted ''status'' @ '': true, '' @ quoted ''evidence'' @ '': ''
     @ quoted ''Section 2'' @ ''}''"

definition evidenceListAnswer :: string where
  "evidenceListAnswer =
     ''{'' @ quoted ''status'' @ '': '' @ quoted ''PASS'' @ '', '' @ quoted ''evidence''
     @ '': ['' @ quoted ''p. 1'' @ '', '' @ quoted ''p. 3'' @ ''], '' @ quoted ''confidence''
     @ '': 132.7}''"

definition plainAnswer :: string where
  "plainAnswer =
     ''{'' @ quoted ''status'' @ '': '' @ quoted ''Pass'' @ '', '' @ quoted ''reasoning''
     @ '': '' @ quoted [] @ '', '' @ quoted ''confidence'' @ '': 73.4}''"

definition mixedRulesField :: string where
  "mixedRulesField = ''['' @ quoted ''must mention a date'' @ '', 5]''"

definition demoParse :: "string \<Rightarrow> jsval option" where
  "demoParse s =
     (if s = statusNotTextAnswer
      then Some (JObj [(''status'', JBool True), (''evidence'', JStr ''Section 2'')])
      else if s = evidenceListAnswer
      then Some (JObj [(''status'', JStr ''PASS''),
                       (''evidence'', JArr [JStr ''p. 1'', JStr ''p. 3'']),
                       (''confidence'', JNum (Finite (2334483088094003 / 17592186044416)))])
      else if s = plainAnswer
      then Some (JObj [(''status'', JStr ''Pass''), (''reasoning'', JStr []),
                       (''confidence'', JNum (Finite (2582532911320269 / 35184372088832)))])
      else if s = mixedRulesField
      then Some (JArr [JStr ''must mention a date'', JNum (Finite 5)])
      else None)"

definition demoRuntime :: runtime where
  "demoRuntime = \<lparr> jsonParse = demoParse, numberToString = (\<lambda>n. ''5'') \<rparr>"

definition demoDocument :: string where
  "demoDocument = ''This plan starts March 2024. Jane Doe is responsible for delivery.''"

definition demoRule :: string where
  "demoRule = ''Names who is responsible for delivery''"

text \<open>The status of a parsed answer can be read when it is absent, \<^verbatim>\<open>null\<close> or a
  string.\<close>

definition statusUsable :: "(string \<times> jsval) list \<Rightarrow> bool" where
  "statusUsable kvs =
     (case map_of kvs ''status'' of
        None \<Rightarrow> True
      | Some JUndefined \<Rightarrow> True
      | Some JNull \<Rightarrow> True
      | Some (JStr t) \<Rightarrow> True
      | Some v \<Rightarrow> False)"

text \<open>SDK clients for the examples: OpenAI answers with a plain verdict, Mistral is down,
  Groq answers with a verdict whose evidence is a list of quotes.  Then the environment
  without any key and the one with the Groq key, and an answer wrapped in prose.\<close>

definition demoSdks :: sdks where
  "demoSdks =
     \<lparr> newOpenAI = (\<lambda>k prompt. Resolves (JObj [(''choices'',
           JArr [JObj [(''message'', JObj [(''content'', JStr plainAnswer)])]])])),
       newMistral = (\<lambda>k prompt. Rejects ''503 Service Unavailable''),
       newGroq = (\<lambda>k prompt. Resolves (JObj [(''output_text'',
           JStr (''Here is the verdict: '' @ evidenceListAnswer))])) \<rparr>"

definition noKeys :: config where
  "noKeys = \<lparr> openAiKey = None, mistralKey = None, groqKey = None, providerPreference = None,
               openAiModel = None, mistralModel = None, groqModel = None \<rparr>"

definition groqOnly :: config where
  "groqOnly = noKeys\<lparr> groqKey := Some ''gsk-test'', providerPreference := Some ''groq'' \<rparr>"

definition wrappedPlainAnswer :: string where
  "wrappedPlainAnswer = ''Here is the verdict: '' @ plainAnswer @ '' Done.''"

text \<open>Environments with a single key, and ten rules.\<close>

definition mistralOnly :: config where
  "mistralOnly = noKeys\<lparr> mistralKey := Some ''mk-test'' \<rparr>"

definition openaiOnly :: config where
  "openaiOnly = noKeys\<lparr> openAiKey := Some ''sk-test'' \<rparr>"

definition tenRules :: "string list" where
  "tenRules =
     [''Names who is responsible for delivery'', ''Gives a start date'', ''States the budget'',
      ''Lists the milestones'', ''Names the sponsor'', ''Describes the risks'',
      ''Has a purpose section'', ''Mentions the location'', ''Defines the scope'',
      ''Is signed by the owner'']"

text \<open>A rule list with an entry that is not text.\<close>

definition threeRules :: jsval where
  "threeRules = JArr [JStr ''R1'', JStr '' R2'', JNull, JStr ''R3 '']"

text \<open>A text as a PDF parser delivers it, with a tab, doubled spaces and line breaks.\<close>

definition rawPdfText :: string where
  "rawPdfText = [CHR 0x09] @ ''This plan  starts'' @ [CHR 0x0A, CHR 0x0A] @ ''March 2024. ''"

text \<open>The verdicts a response carries.\<close>

fun verdictsOf :: "response \<Rightarrow> verdict list" where
  "verdictsOf (Rejected code msg) = []"
| "verdictsOf (Success m vs) = vs"

text \<open>
  A request is defective when it has no file, no rules field, a rules value that is not a
  list, no rule left once the entries that are not text or blank are discarded, or a
  document whose text cannot be extracted or is empty.
\<close>

definition requestDefective :: "runtime \<Rightarrow> (string \<Rightarrow> pdf_run) \<Rightarrow> request \<Rightarrow> bool" where
  "requestDefective rt pdf req =
     (case pdfFile req of
        None \<Rightarrow> True
      | Some buffer \<Rightarrow>
          if truthy (rawRules req)
          then (case rulesOf rt (rawRules req) of
                  JArr xs \<Rightarrow>
                    if cleanRules xs = [] then True
                    else (case extractTextFromPdf (pdf buffer) of
                            Inl e \<Rightarrow> True
                          | Inr (t, pg) \<Rightarrow> t = [])
                | _ \<Rightarrow> True)
          else True)"

text \<open>A parser that extracts the example document, and three requests: without a file,
  with a rule that is not text, with eleven rules.\<close>

definition demoPdf :: "string \<Rightarrow> pdf_run" where
  "demoPdf buffer = \<lparr> getText = Inr (JStr demoDocument, JNum (Finite 1)), destroyFails = False \<rparr>"

definition noFileRequest :: request where
  "noFileRequest = \<lparr> pdfFile = None, rawRules = JStr demoRule, rawProvider = JUndefined \<rparr>"

definition mixedRequest :: request where
  "mixedRequest =
     \<lparr> pdfFile = Some ''%PDF-1.7'', rawRules = JStr mixedRulesField, rawProvider = JUndefined \<rparr>"

definition elevenRules :: "jsval list" where
  "elevenRules = map JStr (tenRules @ [''Has an appendix''])"

definition elevenRequest :: request where
  "elevenRequest =
     \<lparr> pdfFile = Some ''%PDF-1.7'', rawRules = JArr elevenRules, rawProvider = JUndefined \<rparr>"

section \<open>Searching a string\<close>

text \<open>\<open>indexOf\<close> finds the first occurrence and \<open>lastIndexOf\<close> the last one.\<close>

lemma indexOf_None_iff: "indexOf x xs = None \<longleftrightarrow> x \<notin> set xs"
  by (induction xs) auto

lemma indexOf_Some_iff:
  "indexOf x xs = Some i \<longleftrightarrow> i < length xs \<and> xs ! i = x \<and> x \<notin> set (take i xs)"
proof (induction xs arbitrary: i)
  case Nil
  then show ?case by simp
next
  case (Cons y ys)
  show ?case
  proof (cases "y = x")
    case True
    then show ?thesis by (cases i) auto
  next
    case False
    then show ?thesis using Cons by (cases i) auto
  qed
qed

lemma lastIndexOf_None_iff: "lastIndexOf x xs = None \<longleftrightarrow> x \<notin> set xs"
  by (simp add: lastIndexOf_def indexOf_None_iff)

lemma lastIndexOf_Some_iff:
  "lastIndexOf x xs = Some j \<longleftrightarrow> j < length xs \<and> xs ! j = x \<and> x \<notin> set (drop (Suc j) xs)"
proof
  assume "lastIndexOf x xs = Some j"
  then obtain i where i: "indexOf x (rev xs) = Some i" and j: "j = length xs - 1 - i"
    by (auto simp: lastIndexOf_def)
  from i have il: "i < length xs" and nth: "rev xs ! i = x"
    and notin: "x \<notin> set (take i (rev xs))"
    by (simp_all add: indexOf_Some_iff)
  from il j have sj: "length xs - i = Suc j" by arith
  have "xs ! j = x" using nth il j by (simp add: rev_nth)
  moreover have "x \<notin> set (drop (Suc j) xs)" using notin sj by (simp add: take_rev)
  ultimately show "j < length xs \<and> xs ! j = x \<and> x \<notin> set (drop (Suc j) xs)"
    using il j by simp
next
  assume a: "j < length xs \<and> xs ! j = x \<and> x \<notin> set (drop (Suc j) xs)"
  define i where "i = length xs - 1 - j"
  from a have jl: "j < length xs" by simp
  then have il: "i < length xs" and ji: "j = length xs - 1 - i" and sj: "length xs - i = Suc j"
    unfolding i_def by arith+
  have "rev xs ! i = x" using a il ji by (simp add: rev_nth)
  moreover have "x \<notin> set (take i (rev xs))" using a sj by (simp add: take_rev)
  ultimately have "indexOf x (rev xs) = Some i" using il by (simp add: indexOf_Some_iff)
  then show "lastIndexOf x xs = Some j" using ji by (simp add: lastIndexOf_def)
qed


section \<open>The normalizer on text without a JSON object\<close>

text \<open>
  Claim C4.  For every raw backend text that contains no \<open>{\<close> or no \<open>}\<close>, and for every
  raw text whose part from the first \<open>{\<close> (at index \<open>i\<close>) to the last \<open>}\<close> (at index
  \<open>j\<close>) fails to parse as JSON, \<^verbatim>\<open>parseLLMJson\<close> returns the fallback verdict itself, so
  every field is the fallback's.
\<close>

theorem normalizer_returns_fallback:
  "(CHR ''{'' \<notin> set s \<or> CHR ''}'' \<notin> set s \<longrightarrow> parseLLMJson rt (JStr s) fb src = fb)
   \<and> (i < length s \<and> s ! i = CHR ''{'' \<and> CHR ''{'' \<notin> set (take i s)
        \<and> j < length s \<and> s ! j = CHR ''}'' \<and> CHR ''}'' \<notin> set (drop (Suc j) s)
        \<and> jsonParse rt (slice s i (j + 1)) = None
      \<longrightarrow> parseLLMJson rt (JStr s) fb src = fb)"
proof (intro conjI impI)
  assume "CHR ''{'' \<notin> set s \<or> CHR ''}'' \<notin> set s"
  then have "indexOf (CHR ''{'') s = None \<or> lastIndexOf (CHR ''}'') s = None"
    by (simp add: indexOf_None_iff lastIndexOf_None_iff)
  then show "parseLLMJson rt (JStr s) fb src = fb"
    by (auto simp: parseLLMJson_def parseLLMJsonBody_def split: option.splits)
next
  assume a: "i < length s \<and> s ! i = CHR ''{'' \<and> CHR ''{'' \<notin> set (take i s)
        \<and> j < length s \<and> s ! j = CHR ''}'' \<and> CHR ''}'' \<notin> set (drop (Suc j) s)
        \<and> jsonParse rt (slice s i (j + 1)) = None"
  then have "indexOf (CHR ''{'') s = Some i" and "lastIndexOf (CHR ''}'') s = Some j"
    by (simp_all add: indexOf_Some_iff lastIndexOf_Some_iff)
  with a show "parseLLMJson rt (JStr s) fb src = fb"
    by (simp add: parseLLMJson_def parseLLMJsonBody_def)
qed

theorem normalizer_returns_fallback_witness:
  "parseLLMJson demoRuntime (JStr ''No verdict available'') (buildFallbackResult demoRule demoDocument) ''groq''
     = buildFallbackResult demoRule demoDocument
   \<and> jsonParse demoRuntime (slice ''Sure, here you go: {status: pass, evidence: ...}'' 19 (47 + 1)) = None
   \<and> parseLLMJson demoRuntime (JStr ''Sure, here you go: {status: pass, evidence: ...}'')
        (buildFallbackResult demoRule demoDocument) ''groq''
     = buildFallbackResult demoRule demoDocument"
proof -
  have h: "jsonParse demoRuntime (slice ''Sure, here you go: {status: pass, evidence: ...}'' 19 (47 + 1)) = None"
    by code_simp
  have g: "(19::nat) < length ''Sure, here you go: {status: pass, evidence: ...}''
        \<and> ''Sure, here you go: {status: pass, evidence: ...}'' ! 19 = CHR ''{''
        \<and> CHR ''{'' \<notin> set (take 19 ''Sure, here you go: {status: pass, evidence: ...}'')
        \<and> (47::nat) < length ''Sure, here you go: {status: pass, evidence: ...}''
        \<and> ''Sure, here you go: {status: pass, evidence: ...}'' ! 47 = CHR ''}''
        \<and> CHR ''}'' \<notin> set (drop (Suc 47) ''Sure, here you go: {status: pass, evidence: ...}'')"
    by code_simp
  have n: "CHR ''{'' \<notin> set ''No verdict available'' \<or> CHR ''}'' \<notin> set ''No verdict available''"
    by simp
  show ?thesis
    using normalizer_returns_fallback [of "''No verdict available''" demoRuntime
        "buildFallbackResult demoRule demoDocument" "''groq''" 0 0]
      normalizer_returns_fallback [of "''Sure, here you go: {status: pass, evidence: ...}''" demoRuntime
        "buildFallbackResult demoRule demoDocument" "''groq''" 19 47]
      h g n
    by blast
qed

section \<open>The normalizer on a parsed answer\<close>

lemma clampConfidence_Finite:
  "clampConfidence (Finite q) = Finite (of_int (min 100 (max 0 (round q))))"
  by (auto simp: clampConfidence_def mathMin_def mathMax_def round_def min_def max_def)

lemma clampConfidence_range:
  "\<exists>k::int. 0 \<le> k \<and> k \<le> 100 \<and> clampConfidence n = Finite (of_int k)"
proof (cases n)
  case (Finite q)
  have "clampConfidence (Finite q) = Finite (of_int (min 100 (max 0 (round q))))"
    by (rule clampConfidence_Finite)
  moreover have "0 \<le> min 100 (max 0 (round q))" "min 100 (max 0 (round q)) \<le> 100"
    by simp_all
  ultimately show ?thesis using Finite by blast
next
  case PosInfinity
  have "clampConfidence PosInfinity = Finite (of_int 100)"
    by (simp add: clampConfidence_def mathMin_def mathMax_def)
  then show ?thesis using PosInfinity by (intro exI[of _ 100]) simp
next
  case NegInfinity
  have "clampConfidence NegInfinity = Finite (of_int 0)"
    by (simp add: clampConfidence_def mathMin_def mathMax_def)
  then show ?thesis using NegInfinity by (intro exI[of _ 0]) simp
qed

lemma fromParsed_usable:
  "statusUsable kvs \<Longrightarrow>
   fromParsed (JObj kvs) fb src =
     Inr \<lparr> rule = rule fb,
           status = (if \<exists>t. map_of kvs ''status'' = Some (JStr t) \<and> toLowerCase t = ''pass''
                     then ''pass'' else ''fail''),
           evidence = (case map_of kvs ''evidence'' of
                         Some v \<Rightarrow> if truthy v then v else evidence fb
                       | None \<Rightarrow> evidence fb),
           reasoning = (case map_of kvs ''reasoning'' of
                          Some v \<Rightarrow> if truthy v then v else reasoning fb
                        | None \<Rightarrow> reasoning fb),
           confidence = (case map_of kvs ''confidence'' of
                           Some (JNum n) \<Rightarrow> clampConfidence n
                         | _ \<Rightarrow> confidence fb),
           source = src \<rparr>"
  by (auto simp: statusUsable_def fromParsed_def js_or_def split: option.splits jsval.splits)

lemma fromParsed_unusable:
  "\<not> statusUsable kvs \<Longrightarrow> \<exists>e. fromParsed (JObj kvs) fb src = Inl e"
  by (auto simp: statusUsable_def fromParsed_def split: option.splits jsval.splits)

text \<open>
  Claim C3, as amended.  When a JSON object is extracted from the raw text and its status
  is absent, \<^verbatim>\<open>null\<close> or a string, the fields are mapped one by one: status is \<open>pass\<close>
  exactly when the parsed status is a string that equals \<open>pass\<close> up to case, else \<open>fail\<close>;
  evidence and reasoning are the parsed values when truthy, else the fallback's;
  confidence is the parsed number rounded and clamped to 0..100 (132.7 gives 100, -5
  gives 0, 73.4 gives 73), else the fallback's; the rule is the fallback's and the source
  is the tag.  When the status has any other type, the fallback is returned unchanged.
\<close>

theorem normalizer_maps_fields:
  assumes "i < length s \<and> s ! i = CHR ''{'' \<and> CHR ''{'' \<notin> set (take i s)"
    and "j < length s \<and> s ! j = CHR ''}'' \<and> CHR ''}'' \<notin> set (drop (Suc j) s)"
    and "jsonParse rt (slice s i (j + 1)) = Some (JObj kvs)"
  shows "(statusUsable kvs \<longrightarrow>
            parseLLMJson rt (JStr s) fb src =
              \<lparr> rule = rule fb,
                status = (if \<exists>t. map_of kvs ''status'' = Some (JStr t) \<and> toLowerCase t = ''pass''
                          then ''pass'' else ''fail''),
                evidence = (case map_of kvs ''evidence'' of
                              Some v \<Rightarrow> if truthy v then v else evidence fb
                            | None \<Rightarrow> evidence fb),
                reasoning = (case map_of kvs ''reasoning'' of
                               Some v \<Rightarrow> if truthy v then v else reasoning fb
                             | None \<Rightarrow> reasoning fb),
                confidence = (case map_of kvs ''confidence'' of
                                Some (JNum n) \<Rightarrow> clampConfidence n
                              | _ \<Rightarrow> confidence fb),
                source = src \<rparr>)
       \<and> (\<not> statusUsable kvs \<longrightarrow> parseLLMJson rt (JStr s) fb src = fb)
       \<and> (\<forall>q. clampConfidence (Finite q) = Finite (of_int (min 100 (max 0 (round q)))))
       \<and> clampConfidence PosInfinity = Finite 100
       \<and> clampConfidence NegInfinity = Finite 0
       \<and> clampConfidence (Finite (1327 / 10)) = Finite 100
       \<and> clampConfidence (Finite (- 5)) = Finite 0
       \<and> clampConfidence (Finite (734 / 10)) = Finite 73"
proof -
  from assms have idx: "indexOf (CHR ''{'') s = Some i" "lastIndexOf (CHR ''}'') s = Some j"
    by (simp_all add: indexOf_Some_iff lastIndexOf_Some_iff)
  with assms(3) have body: "parseLLMJsonBody rt (JStr s) fb src = fromParsed (JObj kvs) fb src"
    by (simp add: parseLLMJsonBody_def)
  have usable: "statusUsable kvs \<longrightarrow>
            parseLLMJson rt (JStr s) fb src =
              \<lparr> rule = rule fb,
                status = (if \<exists>t. map_of kvs ''status'' = Some (JStr t) \<and> toLowerCase t = ''pass''
                          then ''pass'' else ''fail''),
                evidence = (case map_of kvs ''evidence'' of
                              Some v \<Rightarrow> if truthy v then v else evidence fb
                            | None \<Rightarrow> evidence fb),
                reasoning = (case map_of kvs ''reasoning'' of
                               Some v \<Rightarrow> if truthy v then v else reasoning fb
                             | None \<Rightarrow> reasoning fb),
                confidence = (case map_of kvs ''confidence'' of
                                Some (JNum n) \<Rightarrow> clampConfidence n
                              | _ \<Rightarrow> confidence fb),
                source = src \<rparr>"
    using body fromParsed_usable [of kvs fb src] by (simp add: parseLLMJson_def)
  have unusable: "\<not> statusUsable kvs \<longrightarrow> parseLLMJson rt (JStr s) fb src = fb"
    using body fromParsed_unusable [of kvs fb src] by (auto simp: parseLLMJson_def)
  have inf: "clampConfidence PosInfinity = Finite 100" "clampConfidence NegInfinity = Finite 0"
    by (simp_all add: clampConfidence_def mathMin_def mathMax_def)
  have ex: "clampConfidence (Finite (1327 / 10)) = Finite 100"
    "clampConfidence (Finite (- 5)) = Finite 0"
    "clampConfidence (Finite (734 / 10)) = Finite 73"
    by code_simp+
  show ?thesis
    using usable unusable inf ex clampConfidence_Finite by blast
qed

theorem normalizer_maps_fields_witness:
  "parseLLMJson demoRuntime (JStr wrappedPlainAnswer)
     (buildFallbackResult demoRule demoDocument) ''mistral''
   = \<lparr> rule = ''Names who is responsible for delivery'',
       status = ''pass'',
       evidence = JStr ''Jane Doe is responsible for delivery.'',
       reasoning = JStr ''Heuristic match for keywords: responsible, delivery.'',
       confidence = Finite 73,
       source = ''mistral'' \<rparr>"
proof -
  let ?kvs = "[(''status'', JStr ''Pass''), (''reasoning'', JStr []),
               (''confidence'', JNum (Finite (2582532911320269 / 35184372088832)))]"
  have a: "(21::nat) < length wrappedPlainAnswer \<and> wrappedPlainAnswer ! 21 = CHR ''{''
           \<and> CHR ''{'' \<notin> set (take 21 wrappedPlainAnswer)"
    by code_simp
  have b: "(75::nat) < length wrappedPlainAnswer \<and> wrappedPlainAnswer ! 75 = CHR ''}''
           \<and> CHR ''}'' \<notin> set (drop (Suc 75) wrappedPlainAnswer)"
    by code_simp
  have c: "jsonParse demoRuntime (slice wrappedPlainAnswer 21 (75 + 1)) = Some (JObj ?kvs)"
    by code_simp
  have u: "statusUsable ?kvs"
    by code_simp
  have fbv: "buildFallbackResult demoRule demoDocument
          = \<lparr> rule = ''Names who is responsible for delivery'',
              status = ''pass'',
              evidence = JStr ''Jane Doe is responsible for delivery.'',
              reasoning = JStr ''Heuristic match for keywords: responsible, delivery.'',
              confidence = Finite 55,
              source = ''heuristic'' \<rparr>"
    by code_simp
  have low: "toLowerCase ''Pass'' = ''pass''"
    by code_simp
  have cl: "clampConfidence (Finite (2582532911320269 / 35184372088832)) = Finite 73"
    by code_simp
  show ?thesis
    using normalizer_maps_fields [OF a b c, of "buildFallbackResult demoRule demoDocument" "''mistral''"] u
    by (simp add: fbv low cl)
qed

text \<open>Claim C3 as written fails: on an answer whose status is \<^verbatim>\<open>true\<close> the verdict
  carries the fallback's status \<open>pass\<close> and the fallback's evidence, not \<open>fail\<close> and the
  parsed evidence.\<close>

theorem normalizer_status_counterexample:
  "jsonParse demoRuntime statusNotTextAnswer
     = Some (JObj [(''status'', JBool True), (''evidence'', JStr ''Section 2'')])
   \<and> status (buildFallbackResult demoRule demoDocument) = ''pass''
   \<and> status (parseLLMJson demoRuntime (JStr statusNotTextAnswer)
        (buildFallbackResult demoRule demoDocument) ''openai'') = ''pass''
   \<and> evidence (parseLLMJson demoRuntime (JStr statusNotTextAnswer)
        (buildFallbackResult demoRule demoDocument) ''openai'')
      = JStr ''Jane Doe is responsible for delivery.''"
  by code_simp

section \<open>Well-formed verdicts\<close>

text \<open>
  Claim C2 says that evidence and reasoning are always non-empty strings.  The normalizer
  copies any truthy parsed value: when Groq answers with a list of quotes as evidence, the
  verdict returned for the rule carries that list.
\<close>

theorem verdict_evidence_list:
  "evidence (evaluateRuleWithLLM demoRuntime (initRegistry groqOnly demoSdks) 0 demoRule
      demoDocument (Some ''groq'')) = JArr [JStr ''p. 1'', JStr ''p. 3'']"
  by code_simp

section \<open>The heuristic evaluator: keywords, threshold, status\<close>

text \<open>The words found by \<open>matchAlnum\<close> are non-empty runs of \<open>a\<close>--\<open>z\<close>, \<open>0\<close>--\<open>9\<close>,
  they occur in the text, and together they hold every such character of the text.\<close>

lemma matchAlnum_concat:
  "concat (matchAlnum cur s) = cur @ filter isAlnumLower s"
  by (induction cur s rule: matchAlnum.induct) simp_all

lemma matchAlnum_sublist:
  "w \<in> set (matchAlnum cur s) \<Longrightarrow> sublist w (cur @ s)"
proof (induction cur s rule: matchAlnum.induct)
  case (1 cur)
  then show ?case by (simp split: if_splits)
next
  case (2 cur c cs)
  show ?case
  proof (cases "isAlnumLower c")
    case True
    with 2 show ?thesis by simp
  next
    case False
    with 2 have "w = cur \<or> w \<in> set (matchAlnum [] cs)" by (simp split: if_splits)
    then show ?thesis
    proof
      assume "w = cur"
      then show ?thesis by (simp add: sublist_append_rightI)
    next
      assume "w \<in> set (matchAlnum [] cs)"
      with 2 False have "sublist w cs" by simp
      then obtain p q where "cs = p @ w @ q" by (auto simp: sublist_def)
      then have "cur @ c # cs = (cur @ c # p) @ w @ q" by simp
      then show ?thesis unfolding sublist_def by blast
    qed
  qed
qed

lemma matchAlnum_words:
  "\<forall>c \<in> set cur. isAlnumLower c \<Longrightarrow> w \<in> set (matchAlnum cur s)
   \<Longrightarrow> w \<noteq> [] \<and> (\<forall>c \<in> set w. isAlnumLower c)"
proof (induction cur s rule: matchAlnum.induct)
  case (1 cur)
  then show ?case by (simp split: if_splits)
next
  case (2 cur c cs)
  show ?case
  proof (cases "isAlnumLower c")
    case True
    with 2 show ?thesis by simp
  next
    case False
    with 2 have "(cur \<noteq> [] \<and> w = cur) \<or> w \<in> set (matchAlnum [] cs)"
      by (simp split: if_splits)
    then show ?thesis
    proof
      assume "cur \<noteq> [] \<and> w = cur"
      with 2 show ?thesis by simp
    next
      assume "w \<in> set (matchAlnum [] cs)"
      with 2 False show ?thesis by simp
    qed
  qed
qed

text \<open>The threshold in whole numbers, and over the reals.\<close>

lemma threshold_le_iff:
  "(thresholdOf k \<le> int n) \<longleftrightarrow> (1 \<le> n \<and> 2 * k \<le> 5 * n)"
proof -
  have "(\<lceil>rat_of_nat k * (4 / 10)\<rceil> \<le> int n) \<longleftrightarrow> (rat_of_nat k * (4 / 10) \<le> of_int (int n))"
    by (rule ceiling_le_iff)
  also have "\<dots> \<longleftrightarrow> (rat_of_nat (2 * k) \<le> rat_of_nat (5 * n))"
    by (simp add: field_simps)
  also have "\<dots> \<longleftrightarrow> 2 * k \<le> 5 * n"
    by (simp only: of_nat_le_iff)
  finally show ?thesis by (auto simp: thresholdOf_def)
qed

lemma threshold_real:
  "thresholdOf k = max 1 \<lceil>(4 / 10 :: real) * real k\<rceil>"
proof -
  have "real_of_rat (rat_of_nat k * (4 / 10)) = (4 / 10 :: real) * real k"
    by (simp add: of_rat_mult of_rat_divide)
  then have "\<lceil>rat_of_nat k * (4 / 10)\<rceil> = \<lceil>(4 / 10 :: real) * real k\<rceil>"
    by (metis of_rat_ceiling)
  then show ?thesis by (simp add: thresholdOf_def)
qed

lemma status_fallback:
  "status (buildFallbackResult r d) =
     (if thresholdOf (length (keywordsOf (trim r)))
           \<le> int (length (matchesOf (keywordsOf (trim r)) d))
      then ''pass'' else ''fail'')"
  by (simp add: buildFallbackResult_def Let_def)

lemma confidence_fallback:
  "confidence (buildFallbackResult r d) =
     (if status (buildFallbackResult r d) = ''pass'' then Finite 55 else Finite 35)"
  by (simp add: buildFallbackResult_def Let_def)

lemma rule_fallback: "rule (buildFallbackResult r d) = trim r"
  by (simp add: buildFallbackResult_def Let_def)

lemma source_fallback: "source (buildFallbackResult r d) = ''heuristic''"
  by (simp add: buildFallbackResult_def Let_def)

lemma keywords_props:
  assumes "k \<in> set (keywordsOf s)"
  shows "4 < length k \<and> (\<forall>c \<in> set k. isAlnumLower c) \<and> sublist k (toLowerCase s)"
proof -
  from assms have "k \<in> set (filter (\<lambda>word. length word > 4) (matchAlnum [] (toLowerCase s)))"
    unfolding keywordsOf_def by (rule in_set_takeD)
  then have len: "4 < length k" and mem: "k \<in> set (matchAlnum [] (toLowerCase s))"
    by simp_all
  from mem have "\<forall>c \<in> set k. isAlnumLower c"
    using matchAlnum_words [of "[]" k "toLowerCase s"] by simp
  moreover from mem have "sublist k (toLowerCase s)"
    using matchAlnum_sublist [of k "[]" "toLowerCase s"] by simp
  ultimately show ?thesis using len by simp
qed

text \<open>
  Claim C5.  For every rule and document, the keywords of the heuristic evaluator are the
  words of lower-case letters and digits of the trimmed, lowered rule that are longer
  than 4, cut to the first 6; the matches are the keywords that occur in the lowered
  document; the status is \<open>pass\<close> exactly when the number of matches is at least
  \<open>max 1 (ceiling (0.4 * number of keywords))\<close> and \<open>fail\<close> otherwise; a rule without
  keywords fails; the confidence is 55 on pass and 35 on fail.
\<close>

theorem heuristic_verdict:
  "keywordsOf (trim r)
     = take 6 (filter (\<lambda>w. 4 < length w) (matchAlnum [] (toLowerCase (trim r))))
   \<and> (\<forall>k \<in> set (keywordsOf (trim r)).
         4 < length k \<and> (\<forall>c \<in> set k. isAlnumLower c) \<and> sublist k (toLowerCase (trim r)))
   \<and> length (keywordsOf (trim r)) \<le> 6
   \<and> matchesOf (keywordsOf (trim r)) d
       = filter (\<lambda>k. sublist k (toLowerCase d)) (keywordsOf (trim r))
   \<and> (status (buildFallbackResult r d) = ''pass'' \<longleftrightarrow>
         max 1 \<lceil>(4 / 10 :: real) * real (length (keywordsOf (trim r)))\<rceil>
           \<le> int (length (matchesOf (keywordsOf (trim r)) d)))
   \<and> (status (buildFallbackResult r d) = ''fail'' \<longleftrightarrow>
         \<not> max 1 \<lceil>(4 / 10 :: real) * real (length (keywordsOf (trim r)))\<rceil>
           \<le> int (length (matchesOf (keywordsOf (trim r)) d)))
   \<and> (keywordsOf (trim r) = [] \<longrightarrow>
         status (buildFallbackResult r d) = ''fail''
         \<and> confidence (buildFallbackResult r d) = Finite 35)
   \<and> confidence (buildFallbackResult r d)
       = (if status (buildFallbackResult r d) = ''pass'' then Finite 55 else Finite 35)"
proof -
  let ?kws = "keywordsOf (trim r)"
  have a: "?kws = take 6 (filter (\<lambda>w. 4 < length w) (matchAlnum [] (toLowerCase (trim r))))"
    by (simp add: keywordsOf_def)
  have b: "\<forall>k \<in> set ?kws.
         4 < length k \<and> (\<forall>c \<in> set k. isAlnumLower c) \<and> sublist k (toLowerCase (trim r))"
    using keywords_props by blast
  have c: "length ?kws \<le> 6"
    by (simp add: keywordsOf_def)
  have d: "matchesOf ?kws d = filter (\<lambda>k. sublist k (toLowerCase d)) ?kws"
    by (simp add: matchesOf_def str_includes_def)
  have st: "status (buildFallbackResult r d) =
     (if max 1 \<lceil>(4 / 10 :: real) * real (length ?kws)\<rceil> \<le> int (length (matchesOf ?kws d))
      then ''pass'' else ''fail'')"
    using status_fallback [of r d] threshold_real [of "length ?kws"] by simp
  have e: "status (buildFallbackResult r d) = ''pass'' \<longleftrightarrow>
         max 1 \<lceil>(4 / 10 :: real) * real (length ?kws)\<rceil> \<le> int (length (matchesOf ?kws d))"
    by (simp add: st)
  have f: "status (buildFallbackResult r d) = ''fail'' \<longleftrightarrow>
         \<not> max 1 \<lceil>(4 / 10 :: real) * real (length ?kws)\<rceil> \<le> int (length (matchesOf ?kws d))"
    by (simp add: st)
  have h: "confidence (buildFallbackResult r d)
       = (if status (buildFallbackResult r d) = ''pass'' then Finite 55 else Finite 35)"
    by (rule confidence_fallback)
  have g: "?kws = [] \<longrightarrow> status (buildFallbackResult r d) = ''fail''
         \<and> confidence (buildFallbackResult r d) = Finite 35"
  proof
    assume "?kws = []"
    then have "status (buildFallbackResult r d) = ''fail''"
      using status_fallback [of r d] by (simp add: matchesOf_def thresholdOf_def)
    then show "status (buildFallbackResult r d) = ''fail''
         \<and> confidence (buildFallbackResult r d) = Finite 35"
      using h by simp
  qed
  show ?thesis by (intro conjI; (rule a b c d e f g h))
qed

theorem heuristic_verdict_witness:
  "keywordsOf (trim ''Has a date'') = []
   \<and> status (buildFallbackResult ''Has a date'' demoDocument) = ''fail''
   \<and> confidence (buildFallbackResult ''Has a date'' demoDocument) = Finite 35
   \<and> keywordsOf (trim demoRule) = [''names'', ''responsible'', ''delivery'']
   \<and> matchesOf (keywordsOf (trim demoRule)) demoDocument = [''responsible'', ''delivery'']
   \<and> status (buildFallbackResult demoRule demoDocument) = ''pass''
   \<and> confidence (buildFallbackResult demoRule demoDocument) = Finite 55"
proof -
  have k0: "keywordsOf (trim ''Has a date'') = []"
    by code_simp
  have k1: "keywordsOf (trim demoRule) = [''names'', ''responsible'', ''delivery'']"
    by code_simp
  have m1: "matchesOf (keywordsOf (trim demoRule)) demoDocument = [''responsible'', ''delivery'']"
    by code_simp
  have m2: "matchesOf [''names'', ''responsible'', ''delivery''] demoDocument
              = [''responsible'', ''delivery'']"
    by code_simp
  have c1: "max 1 \<lceil>(4 / 10 :: real) * real (length [''names'', ''responsible'', ''delivery''])\<rceil>
              \<le> int (length [''responsible'', ''delivery''])"
    by simp
  from heuristic_verdict [of "''Has a date''" demoDocument]
  have g0: "keywordsOf (trim ''Has a date'') = [] \<longrightarrow>
         status (buildFallbackResult ''Has a date'' demoDocument) = ''fail''
         \<and> confidence (buildFallbackResult ''Has a date'' demoDocument) = Finite 35"
    by (elim conjE)
  from heuristic_verdict [of demoRule demoDocument]
  have p1: "status (buildFallbackResult demoRule demoDocument) = ''pass'' \<longleftrightarrow>
         max 1 \<lceil>(4 / 10 :: real) * real (length (keywordsOf (trim demoRule)))\<rceil>
           \<le> int (length (matchesOf (keywordsOf (trim demoRule)) demoDocument))"
    by (elim conjE)
  from heuristic_verdict [of demoRule demoDocument]
  have p2: "confidence (buildFallbackResult demoRule demoDocument)
       = (if status (buildFallbackResult demoRule demoDocument) = ''pass'' then Finite 55 else Finite 35)"
    by (elim conjE)
  from p1 c1 have s1: "status (buildFallbackResult demoRule demoDocument) = ''pass''"
    by (simp only: k1 m2)
  from p2 s1 have f1: "confidence (buildFallbackResult demoRule demoDocument) = Finite 55"
    by simp
  from g0 k0 have "status (buildFallbackResult ''Has a date'' demoDocument) = ''fail''
         \<and> confidence (buildFallbackResult ''Has a date'' demoDocument) = Finite 35"
    by (rule mp)
  with k0 k1 m1 s1 f1 show ?thesis by (intro conjI) (elim conjE, assumption)+
qed

section \<open>The evaluation of one rule\<close>

text \<open>The verdict for a rule is the heuristic one or a normalized answer built over it;
  its rule field is the trimmed rule either way.\<close>

lemma fromParsed_rule: "fromParsed parsed fb src = Inr v \<Longrightarrow> rule v = rule fb"
  by (auto simp: fromParsed_def split: sum.splits)

lemma parseLLMJson_rule: "rule (parseLLMJson rt content fb src) = rule fb"
proof (cases "parseLLMJsonBody rt content fb src")
  case (Inl e)
  then show ?thesis by (simp add: parseLLMJson_def)
next
  case (Inr v)
  then have "v = fb \<or> (\<exists>parsed. fromParsed parsed fb src = Inr v)"
    by (auto simp: parseLLMJsonBody_def split: jsval.splits option.splits)
  then have "rule v = rule fb" using fromParsed_rule by blast
  with Inr show ?thesis by (simp add: parseLLMJson_def)
qed

lemma openaiBranch_cases:
  "openaiBranch rt res fb = Inr v \<Longrightarrow> v = fb \<or> (\<exists>c. v = parseLLMJson rt c fb ''openai'')"
  by (auto simp: openaiBranch_def split: outcome.splits sum.splits if_splits)

lemma mistralBranch_cases:
  "mistralBranch rt res fb = Inr v \<Longrightarrow> v = fb \<or> (\<exists>c. v = parseLLMJson rt c fb ''mistral'')"
  by (auto simp: mistralBranch_def split: outcome.splits sum.splits if_splits)

lemma groqBranch_cases:
  "groqBranch rt res fb = Inr v \<Longrightarrow> v = fb \<or> (\<exists>c. v = parseLLMJson rt c fb ''groq'')"
  by (auto simp: groqBranch_def Let_def split: outcome.splits if_splits)

lemma llmAttempt_cases:
  assumes "llmAttempt rt reg k p prompt fb = Inr v"
  shows "v = fb \<or> (\<exists>c src. v = parseLLMJson rt c fb src)"
proof (cases "if p = ''openai'' then openai reg else None")
  case (Some c)
  with assms have "openaiBranch rt (c k prompt) fb = Inr v" by (simp add: llmAttempt_def)
  then show ?thesis using openaiBranch_cases by blast
next
  case n1: None
  show ?thesis
  proof (cases "if p = ''mistral'' then mistral reg else None")
    case (Some c)
    with assms n1 have "mistralBranch rt (c k prompt) fb = Inr v" by (simp add: llmAttempt_def)
    then show ?thesis using mistralBranch_cases by blast
  next
    case n2: None
    show ?thesis
    proof (cases "if p = ''groq'' then groq reg else None")
      case (Some c)
      with assms n1 n2 have "groqBranch rt (c k prompt) fb = Inr v" by (simp add: llmAttempt_def)
      then show ?thesis using groqBranch_cases by blast
    next
      case None
      with assms n1 n2 show ?thesis by (simp add: llmAttempt_def)
    qed
  qed
qed

lemma evaluate_cases:
  "evaluateRuleWithLLM rt reg k r d provider = buildFallbackResult r d
   \<or> (\<exists>c src. evaluateRuleWithLLM rt reg k r d provider
                 = parseLLMJson rt c (buildFallbackResult r d) src)"
proof (cases "llmAttempt rt reg k (providerOrActive reg provider) (buildPrompt r d)
                (buildFallbackResult r d)")
  case (Inl e)
  then show ?thesis by (simp add: evaluateRuleWithLLM_def Let_def)
next
  case (Inr v)
  then have "v = buildFallbackResult r d
      \<or> (\<exists>c src. v = parseLLMJson rt c (buildFallbackResult r d) src)"
    by (rule llmAttempt_cases)
  with Inr show ?thesis by (auto simp: evaluateRuleWithLLM_def Let_def)
qed

lemma evaluate_rule: "rule (evaluateRuleWithLLM rt reg k r d provider) = trim r"
  using evaluate_cases [of rt reg k r d provider]
  by (auto simp: parseLLMJson_rule rule_fallback)

lemma llmAttempt_no_client:
  "clientOf reg p = None \<Longrightarrow> llmAttempt rt reg k p prompt fb = Inr fb"
  by (auto simp: clientOf_def llmAttempt_def split: if_splits)

lemma llmAttempt_failed:
  assumes "clientOf reg p = Some c" and "callFailed rt p (c k prompt)"
  shows "llmAttempt rt reg k p prompt fb = Inr fb \<or> (\<exists>e. llmAttempt rt reg k p prompt fb = Inl e)"
proof -
  from assms(1) consider
      (o) "p = ''openai''" "openai reg = Some c"
    | (m) "p = ''mistral''" "mistral reg = Some c"
    | (g) "p = ''groq''" "groq reg = Some c"
    by (auto simp: clientOf_def split: if_splits)
  then show ?thesis
  proof cases
    case o
    with assms(2) show ?thesis
      by (auto simp: llmAttempt_def openaiBranch_def callFailed_def
          split: outcome.splits sum.splits)
  next
    case m
    with assms(2) show ?thesis
      by (auto simp: llmAttempt_def mistralBranch_def callFailed_def
          split: outcome.splits sum.splits)
  next
    case g
    with assms(2) show ?thesis
      by (auto simp: llmAttempt_def groqBranch_def callFailed_def Let_def
          split: outcome.splits sum.splits)
  qed
qed

lemma evaluate_fallback:
  assumes "clientOf reg (providerOrActive reg provider) = None
     \<or> (\<exists>c. clientOf reg (providerOrActive reg provider) = Some c
            \<and> callFailed rt (providerOrActive reg provider) (c k (buildPrompt r d)))"
  shows "evaluateRuleWithLLM rt reg k r d provider = buildFallbackResult r d"
proof -
  let ?a = "llmAttempt rt reg k (providerOrActive reg provider) (buildPrompt r d)
              (buildFallbackResult r d)"
  from assms have "?a = Inr (buildFallbackResult r d) \<or> (\<exists>e. ?a = Inl e)"
    using llmAttempt_no_client llmAttempt_failed by blast
  then show ?thesis by (auto simp: evaluateRuleWithLLM_def Let_def)
qed

lemma evaluate_caught:
  "llmAttempt rt reg k (providerOrActive reg provider) (buildPrompt r d)
     (buildFallbackResult r d) = Inl e
   \<Longrightarrow> evaluateRuleWithLLM rt reg k r d provider = buildFallbackResult r d"
  by (simp add: evaluateRuleWithLLM_def Let_def)

section \<open>The batch\<close>

lemma dropWhile_rev_dropWhile:
  "dropWhile P (rev (dropWhile P (rev (dropWhile P s)))) = rev (dropWhile P (rev (dropWhile P s)))"
proof (cases "dropWhile P s")
  case Nil
  show ?thesis unfolding Nil by simp
next
  case (Cons x xs)
  then have nx: "\<not> P x" by (metis hd_dropWhile list.sel(1) list.distinct(1))
  have "dropWhile P (rev (x # xs)) = dropWhile P (rev xs @ [x])" by simp
  also have "\<dots> = (if \<forall>y \<in> set (rev xs). P y then dropWhile P [x] else dropWhile P (rev xs) @ [x])"
    by (simp add: dropWhile_append)
  finally obtain ys where ys: "dropWhile P (rev (x # xs)) = ys @ [x]"
    using nx by (cases "\<forall>y \<in> set (rev xs). P y") auto
  then have "rev (dropWhile P (rev (x # xs))) = x # rev ys" by simp
  then show ?thesis using Cons nx by simp
qed

lemma trim_idem: "trim (trim s) = trim s"
proof -
  have "dropWhile isSpace (trim s) = trim s"
    unfolding trim_def by (rule dropWhile_rev_dropWhile)
  then have "trim (trim s) = rev (dropWhile isSpace (rev (trim s)))"
    by (simp add: trim_def)
  also have "\<dots> = rev (dropWhile isSpace (dropWhile isSpace (rev (dropWhile isSpace s))))"
    by (simp add: trim_def)
  also have "\<dots> = trim s"
    by (simp add: trim_def dropWhile_idem)
  finally show ?thesis .
qed

lemma cleanRules_trimmed: "r \<in> set (cleanRules xs) \<Longrightarrow> trim r = r \<and> r \<noteq> []"
  by (auto simp: cleanRules_def trim_idem split: jsval.splits)

lemma normalizeRules_trimmed:
  assumes "normalizeRules v = Inr rules"
  shows "map trim rules = rules"
proof -
  from assms obtain xs where "rules = take 10 (cleanRules xs)"
    by (auto simp: normalizeRules_def split: jsval.splits)
  then have "\<forall>r \<in> set rules. trim r = r"
    using cleanRules_trimmed by (metis in_set_takeD)
  then show ?thesis by (simp add: map_idI)
qed

lemma map_enumerate_snd: "map (\<lambda>(k, r). f r) (enumerate n xs) = map f xs"
  by (induction xs arbitrary: n) simp_all

lemma length_evaluateAll: "length (evaluateAll rt reg rules d p) = length rules"
  by (simp add: evaluateAll_def)

lemma rules_evaluateAll: "map rule (evaluateAll rt reg rules d p) = map trim rules"
proof -
  have "map rule (evaluateAll rt reg rules d p) = map (\<lambda>(k, r). trim r) (enumerate 0 rules)"
    by (simp add: evaluateAll_def evaluate_rule case_prod_beta)
  then show ?thesis by (simp only: map_enumerate_snd)
qed

lemma evaluateAll_fallback:
  assumes "\<forall>c. clientOf reg (providerOrActive reg (Some p)) = Some c \<longrightarrow>
             (\<forall>k prompt. callFailed rt (providerOrActive reg (Some p)) (c k prompt))"
  shows "evaluateAll rt reg rules d p = map (\<lambda>r. buildFallbackResult r d) rules"
proof -
  have one: "evaluateRuleWithLLM rt reg k r d (Some p) = buildFallbackResult r d" for k r
  proof (rule evaluate_fallback)
    show "clientOf reg (providerOrActive reg (Some p)) = None
     \<or> (\<exists>c. clientOf reg (providerOrActive reg (Some p)) = Some c
            \<and> callFailed rt (providerOrActive reg (Some p)) (c k (buildPrompt r d)))"
      using assms by (cases "clientOf reg (providerOrActive reg (Some p))") auto
  qed
  have "evaluateAll rt reg rules d p = map (\<lambda>(k, r). buildFallbackResult r d) (enumerate 0 rules)"
    by (simp add: evaluateAll_def one)
  then show ?thesis by (simp only: map_enumerate_snd)
qed

section \<open>Total availability\<close>

text \<open>
  Claim C1.  \<^verbatim>\<open>evaluateRuleWithLLM\<close> returns a verdict for every rule, document and
  requested backend; an exception inside its \<^verbatim>\<open>try\<close> block is caught and answered with
  the fallback.  Whenever the selected backend has no client, or its call fails (it
  rejects, unwrapping the response throws, or the payload is empty), the verdict is the
  heuristic fallback, whose source is \<open>heuristic\<close>.  A batch of N rules yields N verdicts,
  all heuristic when every call of the backend fails.
\<close>

theorem orchestrator_total_availability:
  "(clientOf reg (providerOrActive reg provider) = None
      \<or> (\<exists>c. clientOf reg (providerOrActive reg provider) = Some c
             \<and> callFailed rt (providerOrActive reg provider) (c k (buildPrompt r d)))
     \<longrightarrow> evaluateRuleWithLLM rt reg k r d provider = buildFallbackResult r d)
   \<and> (llmAttempt rt reg k (providerOrActive reg provider) (buildPrompt r d)
         (buildFallbackResult r d) = Inl e
       \<longrightarrow> evaluateRuleWithLLM rt reg k r d provider = buildFallbackResult r d)
   \<and> source (buildFallbackResult r d) = ''heuristic''
   \<and> length (evaluateAll rt reg rules d p) = length rules
   \<and> ((\<forall>c. clientOf reg (providerOrActive reg (Some p)) = Some c \<longrightarrow>
             (\<forall>j prompt. callFailed rt (providerOrActive reg (Some p)) (c j prompt)))
       \<longrightarrow> evaluateAll rt reg rules d p = map (\<lambda>x. buildFallbackResult x d) rules
           \<and> map source (evaluateAll rt reg rules d p) = replicate (length rules) ''heuristic'')"
proof (intro conjI impI)
  assume "clientOf reg (providerOrActive reg provider) = None
      \<or> (\<exists>c. clientOf reg (providerOrActive reg provider) = Some c
             \<and> callFailed rt (providerOrActive reg provider) (c k (buildPrompt r d)))"
  then show "evaluateRuleWithLLM rt reg k r d provider = buildFallbackResult r d"
    by (rule evaluate_fallback)
next
  assume "llmAttempt rt reg k (providerOrActive reg provider) (buildPrompt r d)
         (buildFallbackResult r d) = Inl e"
  then show "evaluateRuleWithLLM rt reg k r d provider = buildFallbackResult r d"
    by (rule evaluate_caught)
next
  show "source (buildFallbackResult r d) = ''heuristic''"
    by (rule source_fallback)
next
  show "length (evaluateAll rt reg rules d p) = length rules"
    by (rule length_evaluateAll)
next
  assume a: "\<forall>c. clientOf reg (providerOrActive reg (Some p)) = Some c \<longrightarrow>
             (\<forall>j prompt. callFailed rt (providerOrActive reg (Some p)) (c j prompt))"
  then show "evaluateAll rt reg rules d p = map (\<lambda>x. buildFallbackResult x d) rules"
    by (rule evaluateAll_fallback)
next
  assume a: "\<forall>c. clientOf reg (providerOrActive reg (Some p)) = Some c \<longrightarrow>
             (\<forall>j prompt. callFailed rt (providerOrActive reg (Some p)) (c j prompt))"
  then have "evaluateAll rt reg rules d p = map (\<lambda>x. buildFallbackResult x d) rules"
    by (rule evaluateAll_fallback)
  then show "map source (evaluateAll rt reg rules d p) = replicate (length rules) ''heuristic''"
    by (simp add: source_fallback comp_def map_replicate_const)
qed

theorem orchestrator_total_availability_witness:
  "evaluateRuleWithLLM demoRuntime (initRegistry mistralOnly demoSdks) 0 demoRule demoDocument None
     = buildFallbackResult demoRule demoDocument
   \<and> llmAttempt demoRuntime (initRegistry mistralOnly demoSdks) 0 ''mistral''
        (buildPrompt demoRule demoDocument) (buildFallbackResult demoRule demoDocument)
      = Inl (BackendError ''503 Service Unavailable'')
   \<and> length (evaluateAll demoRuntime (initRegistry mistralOnly demoSdks) tenRules demoDocument
        ''mistral'') = 10
   \<and> map source (evaluateAll demoRuntime (initRegistry mistralOnly demoSdks) tenRules
        demoDocument ''mistral'') = replicate 10 ''heuristic''"
proof -
  let ?reg = "initRegistry mistralOnly demoSdks"
  have act: "activeProvider ?reg = ''mistral''"
    by (simp add: initRegistry_def mistralOnly_def noKeys_def resolveMistral_def keyMissing_def)
  have mis: "mistral ?reg = Some (newMistral demoSdks)"
    by (simp add: initRegistry_def mistralOnly_def noKeys_def resolveMistral_def keyMissing_def)
  have p0: "providerOrActive ?reg None = ''mistral''" "providerOrActive ?reg (Some ''mistral'') = ''mistral''"
    by (simp_all add: providerOrActive_def act)
  have cl: "clientOf ?reg ''mistral'' = Some (newMistral demoSdks)"
    by (simp add: clientOf_def mis)
  have fail: "callFailed demoRuntime ''mistral'' (newMistral demoSdks j prompt)" for j prompt
    by (simp add: callFailed_def demoSdks_def)
  have h1: "clientOf ?reg (providerOrActive ?reg None) = None
      \<or> (\<exists>c. clientOf ?reg (providerOrActive ?reg None) = Some c
             \<and> callFailed demoRuntime (providerOrActive ?reg None)
                  (c 0 (buildPrompt demoRule demoDocument)))"
    using cl fail by (simp add: p0)
  have h2: "llmAttempt demoRuntime ?reg 0 (providerOrActive ?reg None)
        (buildPrompt demoRule demoDocument) (buildFallbackResult demoRule demoDocument)
      = Inl (BackendError ''503 Service Unavailable'')"
    unfolding p0 llmAttempt_def mis by (simp add: mistralBranch_def demoSdks_def)
  have h3: "\<forall>c. clientOf ?reg (providerOrActive ?reg (Some ''mistral'')) = Some c \<longrightarrow>
             (\<forall>j prompt. callFailed demoRuntime (providerOrActive ?reg (Some ''mistral''))
                (c j prompt))"
    using cl fail by (simp add: p0)
  have len: "length tenRules = 10"
    by (simp add: tenRules_def)
  note T = orchestrator_total_availability [of ?reg None demoRuntime 0 demoRule demoDocument
      "BackendError ''503 Service Unavailable''" tenRules "''mistral''"]
  from T h1 have c1: "evaluateRuleWithLLM demoRuntime ?reg 0 demoRule demoDocument None
     = buildFallbackResult demoRule demoDocument"
    by (elim conjE) (erule mp)
  from T h3 have c3: "evaluateAll demoRuntime ?reg tenRules demoDocument ''mistral''
            = map (\<lambda>x. buildFallbackResult x demoDocument) tenRules
           \<and> map source (evaluateAll demoRuntime ?reg tenRules demoDocument ''mistral'')
             = replicate (length tenRules) ''heuristic''"
    by (elim conjE) (erule mp)
  from T have c4: "length (evaluateAll demoRuntime ?reg tenRules demoDocument ''mistral'')
      = length tenRules"
    by (elim conjE)
  from h2 have h2': "llmAttempt demoRuntime ?reg 0 ''mistral''
        (buildPrompt demoRule demoDocument) (buildFallbackResult demoRule demoDocument)
      = Inl (BackendError ''503 Service Unavailable'')"
    by (simp only: p0)
  from c3 have c5: "map source (evaluateAll demoRuntime ?reg tenRules demoDocument ''mistral'')
             = replicate 10 ''heuristic''"
    unfolding len by (rule conjunct2)
  from c4 have c6: "length (evaluateAll demoRuntime ?reg tenRules demoDocument ''mistral'') = 10"
    unfolding len .
  show ?thesis by (intro conjI; (rule c1 h2' c5 c6))
qed

section \<open>Order of the batch\<close>

text \<open>
  Claim C6.  For every ordered list of rules the batch (\<^verbatim>\<open>Promise.all\<close> over the mapped
  rules) returns exactly one verdict per rule, and the rule field of the i-th verdict is
  the i-th rule (trimmed, which changes nothing for the rules the handler passes on); no
  rule of the list is left out.
\<close>

theorem batch_preserves_order:
  "length (evaluateAll rt reg rules d p) = length rules
   \<and> map rule (evaluateAll rt reg rules d p) = map trim rules
   \<and> (i < length rules \<longrightarrow> rule (evaluateAll rt reg rules d p ! i) = trim (rules ! i))
   \<and> (normalizeRules v = Inr rules \<longrightarrow>
         map rule (evaluateAll rt reg rules d p) = rules
         \<and> (i < length rules \<longrightarrow> rule (evaluateAll rt reg rules d p ! i) = rules ! i))"
proof -
  have len: "length (evaluateAll rt reg rules d p) = length rules"
    by (rule length_evaluateAll)
  have rs: "map rule (evaluateAll rt reg rules d p) = map trim rules"
    by (rule rules_evaluateAll)
  have nth: "rule (evaluateAll rt reg rules d p ! i) = trim (rules ! i)" if "i < length rules"
  proof -
    have "rule (evaluateAll rt reg rules d p ! i) = map rule (evaluateAll rt reg rules d p) ! i"
      using that len by simp
    also have "\<dots> = trim (rules ! i)"
      unfolding rs using that by simp
    finally show ?thesis .
  qed
  have norm: "map rule (evaluateAll rt reg rules d p) = rules
         \<and> (i < length rules \<longrightarrow> rule (evaluateAll rt reg rules d p ! i) = rules ! i)"
    if "normalizeRules v = Inr rules"
  proof -
    from that have t: "map trim rules = rules" by (rule normalizeRules_trimmed)
    have "i < length rules \<longrightarrow> trim (rules ! i) = rules ! i"
    proof
      assume "i < length rules"
      then have "trim (rules ! i) = map trim rules ! i" by simp
      then show "trim (rules ! i) = rules ! i" unfolding t .
    qed
    then show ?thesis using rs t nth by simp
  qed
  show ?thesis using len rs nth norm by (intro conjI impI) simp_all
qed

theorem batch_preserves_order_witness:
  "normalizeRules threeRules = Inr [''R1'', ''R2'', ''R3'']
   \<and> map rule (evaluateAll demoRuntime (initRegistry openaiOnly demoSdks) [''R1'', ''R2'', ''R3'']
        demoDocument ''openai'') = [''R1'', ''R2'', ''R3'']
   \<and> rule (evaluateAll demoRuntime (initRegistry openaiOnly demoSdks) [''R1'', ''R2'', ''R3'']
        demoDocument ''openai'' ! 2) = ''R3''"
proof -
  have n: "normalizeRules threeRules = Inr [''R1'', ''R2'', ''R3'']"
    by code_simp
  have i: "(2::nat) < length [''R1'', ''R2'', ''R3'']"
    by simp
  note T = batch_preserves_order [of demoRuntime "initRegistry openaiOnly demoSdks"
      "[''R1'', ''R2'', ''R3'']" demoDocument "''openai''" 2 threeRules]
  from T n have c: "map rule (evaluateAll demoRuntime (initRegistry openaiOnly demoSdks)
        [''R1'', ''R2'', ''R3''] demoDocument ''openai'') = [''R1'', ''R2'', ''R3'']
      \<and> (2 < length [''R1'', ''R2'', ''R3''] \<longrightarrow>
           rule (evaluateAll demoRuntime (initRegistry openaiOnly demoSdks)
             [''R1'', ''R2'', ''R3''] demoDocument ''openai'' ! 2) = [''R1'', ''R2'', ''R3''] ! 2)"
    by (elim conjE) (erule mp)
  then have c1: "map rule (evaluateAll demoRuntime (initRegistry openaiOnly demoSdks)
        [''R1'', ''R2'', ''R3''] demoDocument ''openai'') = [''R1'', ''R2'', ''R3'']"
    by (rule conjunct1)
  from c i have "rule (evaluateAll demoRuntime (initRegistry openaiOnly demoSdks)
             [''R1'', ''R2'', ''R3''] demoDocument ''openai'' ! 2) = [''R1'', ''R2'', ''R3''] ! 2"
    by blast
  then have c2: "rule (evaluateAll demoRuntime (initRegistry openaiOnly demoSdks)
             [''R1'', ''R2'', ''R3''] demoDocument ''openai'' ! 2) = ''R3''"
    by simp
  show ?thesis by (intro conjI; (rule n c1 c2))
qed

section \<open>Selection of the backend\<close>

text \<open>
  Claim C7, as amended.  The effective backend of a request is the requested one when,
  lowered and trimmed, it is one of \<open>groq\<close>, \<open>mistral\<close>, \<open>openai\<close>, \<open>heuristic\<close>, whether
  or not that backend is configured, and the process-wide default otherwise.  When the
  effective backend is \<open>heuristic\<close>, or no backend is configured at all, or the effective
  backend has no client, the rule is evaluated by the heuristic evaluator.  The default
  backend is \<open>heuristic\<close> or has a client.
\<close>

theorem effective_backend:
  "effectiveProviderOf reg raw =
     (case raw of
        JStr s \<Rightarrow>
          if trim (toLowerCase s) \<in> {''groq'', ''mistral'', ''openai'', ''heuristic''}
          then trim (toLowerCase s) else activeProvider reg
      | _ \<Rightarrow> activeProvider reg)
   \<and> ((p = ''heuristic'' \<or> (openai reg = None \<and> mistral reg = None \<and> groq reg = None)
          \<or> clientOf reg p = None) \<and> p \<noteq> []
       \<longrightarrow> evaluateRuleWithLLM rt reg k r d (Some p) = buildFallbackResult r d)
   \<and> (activeProvider (initRegistry cfg sdk) = ''heuristic''
        \<or> (\<exists>c. clientOf (initRegistry cfg sdk) (activeProvider (initRegistry cfg sdk)) = Some c))"
proof (intro conjI impI)
  show "effectiveProviderOf reg raw =
     (case raw of
        JStr s \<Rightarrow>
          if trim (toLowerCase s) \<in> {''groq'', ''mistral'', ''openai'', ''heuristic''}
          then trim (toLowerCase s) else activeProvider reg
      | _ \<Rightarrow> activeProvider reg)"
    by (auto simp: effectiveProviderOf_def allowedProviders_def split: jsval.splits)
next
  assume a: "(p = ''heuristic'' \<or> (openai reg = None \<and> mistral reg = None \<and> groq reg = None)
          \<or> clientOf reg p = None) \<and> p \<noteq> []"
  then have pa: "providerOrActive reg (Some p) = p" by (simp add: providerOrActive_def)
  from a have "clientOf reg p = None" by (auto simp: clientOf_def)
  then have "clientOf reg (providerOrActive reg (Some p)) = None" by (simp only: pa)
  then show "evaluateRuleWithLLM rt reg k r d (Some p) = buildFallbackResult r d"
    by (intro evaluate_fallback disjI1)
next
  show "activeProvider (initRegistry cfg sdk) = ''heuristic''
        \<or> (\<exists>c. clientOf (initRegistry cfg sdk) (activeProvider (initRegistry cfg sdk)) = Some c)"
    by (simp add: initRegistry_def Let_def resolveOpenAI_def resolveMistral_def
        resolveGroq_def clientOf_def)
qed

theorem effective_backend_witness:
  "effectiveProviderOf (initRegistry openaiOnly demoSdks) (JStr '' Groq '') = ''groq''
   \<and> clientOf (initRegistry openaiOnly demoSdks) ''groq'' = None
   \<and> evaluateRuleWithLLM demoRuntime (initRegistry openaiOnly demoSdks) 0 demoRule demoDocument
        (Some ''groq'') = buildFallbackResult demoRule demoDocument"
proof -
  let ?reg = "initRegistry openaiOnly demoSdks"
  have lo: "trim (toLowerCase '' Groq '') = ''groq''"
    by code_simp
  have nc: "clientOf ?reg ''groq'' = None"
    by (simp add: clientOf_def initRegistry_def openaiOnly_def noKeys_def resolveOpenAI_def
        keyMissing_def)
  have h: "(''groq'' = ''heuristic''
            \<or> (openai ?reg = None \<and> mistral ?reg = None \<and> groq ?reg = None)
            \<or> clientOf ?reg ''groq'' = None) \<and> ''groq'' \<noteq> []"
    using nc by simp
  note T = effective_backend [of ?reg "JStr '' Groq ''" "''groq''" demoRuntime 0 demoRule
      demoDocument openaiOnly demoSdks]
  from T have e: "effectiveProviderOf ?reg (JStr '' Groq '') =
     (case JStr '' Groq '' of
        JStr s \<Rightarrow>
          if trim (toLowerCase s) \<in> {''groq'', ''mistral'', ''openai'', ''heuristic''}
          then trim (toLowerCase s) else activeProvider ?reg
      | _ \<Rightarrow> activeProvider ?reg)"
    by (elim conjE)
  have c1: "effectiveProviderOf ?reg (JStr '' Groq '') = ''groq''"
    unfolding e by (simp add: lo)
  from T [THEN conjunct2, THEN conjunct1] h
  have c2: "evaluateRuleWithLLM demoRuntime ?reg 0 demoRule demoDocument (Some ''groq'')
      = buildFallbackResult demoRule demoDocument"
    by (rule mp)
  show ?thesis by (intro conjI; (rule c1 nc c2))
qed

text \<open>Claim C7 as written fails: with only the OpenAI key configured, a request for
  \<open>groq\<close> keeps \<open>groq\<close> as its effective backend instead of the default \<open>openai\<close>, and
  its rule gets the heuristic verdict although the default backend answers.\<close>

theorem effective_backend_counterexample:
  "groqKey openaiOnly = None
   \<and> openAiKey openaiOnly = Some ''sk-test''
   \<and> activeProvider (initRegistry openaiOnly demoSdks) = ''openai''
   \<and> effectiveProviderOf (initRegistry openaiOnly demoSdks) (JStr ''groq'') = ''groq''
   \<and> source (evaluateRuleWithLLM demoRuntime (initRegistry openaiOnly demoSdks) 0 demoRule
        demoDocument (Some (effectiveProviderOf (initRegistry openaiOnly demoSdks) (JStr ''groq''))))
      = ''heuristic''
   \<and> source (evaluateRuleWithLLM demoRuntime (initRegistry openaiOnly demoSdks) 0 demoRule
        demoDocument (Some ''openai'')) = ''openai''"
  by code_simp

section \<open>The document text\<close>

text \<open>Collapsing leaves single spaces only; trimming and truncating keep a part of the
  text.\<close>

lemma truncateText_take: "truncateText t n = take n t"
  by (simp add: truncateText_def)

lemma set_collapseFrom: "set (collapseFrom b s) \<subseteq> insert (CHR '' '') (set s)"
  by (induction b s rule: collapseFrom.induct) auto

lemma isSpace_space: "isSpace (CHR '' '')"
  by (simp add: isSpace_def)

lemma collapseFrom_head:
  "collapseFrom True s = [] \<or> \<not> isSpace (hd (collapseFrom True s))"
  by (induction s) simp_all

lemma singleSpaced_Cons:
  "singleSpaced (c # cs) \<longleftrightarrow>
     (isSpace c \<longrightarrow> c = CHR '' '' \<and> (cs = [] \<or> \<not> isSpace (hd cs))) \<and> singleSpaced cs"
  by (cases cs) auto

lemma singleSpaced_collapseFrom: "singleSpaced (collapseFrom b s)"
proof (induction b s rule: collapseFrom.induct)
  case (1 inRun)
  then show ?case by simp
next
  case (2 inRun c cs)
  show ?case
  proof (cases "isSpace c")
    case True
    with 2 collapseFrom_head [of cs] show ?thesis
      by (simp add: singleSpaced_Cons)
  next
    case False
    with 2 show ?thesis by (simp add: singleSpaced_Cons)
  qed
qed

lemma singleSpaced_append: "singleSpaced (xs @ ys) \<Longrightarrow> singleSpaced xs \<and> singleSpaced ys"
proof (induction xs)
  case Nil
  then show ?case by simp
next
  case (Cons x xs)
  then have tl: "singleSpaced (xs @ ys)" by (simp add: singleSpaced_Cons)
  with Cons.IH have ih: "singleSpaced xs \<and> singleSpaced ys" by simp
  from Cons.prems have "isSpace x \<longrightarrow> x = CHR '' '' \<and> (xs = [] \<or> \<not> isSpace (hd xs))"
    by (cases xs) (simp_all add: singleSpaced_Cons)
  with ih show ?case by (simp add: singleSpaced_Cons)
qed

lemma trim_decompose: "\<exists>pre post. s = pre @ trim s @ post"
proof -
  let ?t = "dropWhile isSpace s"
  have "rev (dropWhile isSpace (rev ?t)) @ rev (takeWhile isSpace (rev ?t))
          = rev (takeWhile isSpace (rev ?t) @ dropWhile isSpace (rev ?t))"
    by (simp only: rev_append)
  also have "\<dots> = rev (rev ?t)"
    by (simp only: takeWhile_dropWhile_id)
  also have "\<dots> = ?t"
    by (simp only: rev_rev_ident)
  finally have "?t = trim s @ rev (takeWhile isSpace (rev ?t))"
    by (simp only: trim_def)
  moreover have "s = takeWhile isSpace s @ ?t" by simp
  ultimately have "s = takeWhile isSpace s @ trim s @ rev (takeWhile isSpace (rev ?t))"
    by simp
  then show ?thesis by blast
qed

lemma singleSpaced_trim: "singleSpaced s \<Longrightarrow> singleSpaced (trim s)"
proof -
  assume a: "singleSpaced s"
  obtain pre post where "s = pre @ trim s @ post" using trim_decompose by blast
  with a have "singleSpaced (pre @ trim s @ post)" by simp
  then have "singleSpaced (trim s @ post)" using singleSpaced_append by blast
  then show ?thesis using singleSpaced_append by blast
qed

lemma set_trim: "set (trim s) \<subseteq> set s"
proof -
  obtain pre post where "s = pre @ trim s @ post" using trim_decompose by blast
  then have "set s = set pre \<union> set (trim s) \<union> set post" by (metis set_append sup_assoc)
  then show ?thesis by blast
qed

lemma singleSpaced_take: "singleSpaced s \<Longrightarrow> singleSpaced (take n s)"
  using singleSpaced_append [of "take n s" "drop n s"] by simp

lemma cleanText_no_nul: "CHR 0x00 \<notin> set (cleanText x)"
  using set_trim [of "filter (\<lambda>c. c \<noteq> CHR 0x00) (collapseWhitespace x)"]
  by (auto simp: cleanText_def)

lemma cleanText_singleSpaced:
  assumes "CHR 0x00 \<notin> set x"
  shows "singleSpaced (cleanText x)"
proof -
  have "CHR 0x00 \<notin> set (collapseWhitespace x)"
    using assms set_collapseFrom [of False x] by (auto simp: collapseWhitespace_def)
  then have "filter (\<lambda>c. c \<noteq> CHR 0x00) (collapseWhitespace x) = collapseWhitespace x"
    by (auto simp: filter_id_conv)
  then have "cleanText x = trim (collapseWhitespace x)" by (simp add: cleanText_def)
  then show ?thesis
    by (simp add: collapseWhitespace_def singleSpaced_collapseFrom singleSpaced_trim)
qed

text \<open>
  Claim C8, as amended.  The document text used for the rule evaluations is the extracted
  text with its white-space runs replaced by single spaces, then its NUL characters
  removed (no other control character is), then trimmed, then cut to 12000 characters.
  It never has more than 12000 characters, it is the cleaned text itself when that is
  within the cap, and it contains no NUL.  For an extracted text without NUL, all white
  space left in it is single spaces.
\<close>

theorem document_text:
  "documentTextOf x
     = take 12000 (trim (filter (\<lambda>c. c \<noteq> CHR 0x00) (collapseWhitespace x)))
   \<and> length (documentTextOf x) \<le> 12000
   \<and> (length (cleanText x) \<le> 12000 \<longrightarrow> documentTextOf x = cleanText x)
   \<and> CHR 0x00 \<notin> set (documentTextOf x)
   \<and> (CHR 0x00 \<notin> set x \<longrightarrow> singleSpaced (documentTextOf x))
   \<and> (getText run = Inr (JStr x, tot) \<and> extractTextFromPdf run = Inr (t, pg)
        \<longrightarrow> truncateText t 12000 = documentTextOf x)"
proof (intro conjI impI)
  show "documentTextOf x
     = take 12000 (trim (filter (\<lambda>c. c \<noteq> CHR 0x00) (collapseWhitespace x)))"
    by (simp add: documentTextOf_def truncateText_take cleanText_def)
next
  show "length (documentTextOf x) \<le> 12000"
    by (simp add: documentTextOf_def truncateText_take)
next
  assume "length (cleanText x) \<le> 12000"
  then show "documentTextOf x = cleanText x"
    by (simp add: documentTextOf_def truncateText_def)
next
  have "set (documentTextOf x) \<subseteq> set (cleanText x)"
    by (simp add: documentTextOf_def truncateText_take set_take_subset)
  then show "CHR 0x00 \<notin> set (documentTextOf x)"
    using cleanText_no_nul [of x] by blast
next
  assume "CHR 0x00 \<notin> set x"
  then have "singleSpaced (cleanText x)" by (rule cleanText_singleSpaced)
  then show "singleSpaced (documentTextOf x)"
    by (simp add: documentTextOf_def truncateText_take singleSpaced_take)
next
  assume a: "getText run = Inr (JStr x, tot) \<and> extractTextFromPdf run = Inr (t, pg)"
  then have "t = cleanText x"
    by (auto simp: extractTextFromPdf_def Let_def split: if_splits)
  then show "truncateText t 12000 = documentTextOf x"
    by (simp add: documentTextOf_def)
qed

theorem document_text_witness:
  "length (cleanText rawPdfText) \<le> 12000
   \<and> CHR 0x00 \<notin> set rawPdfText
   \<and> documentTextOf rawPdfText = ''This plan starts March 2024.''
   \<and> singleSpaced (documentTextOf rawPdfText)
   \<and> extractTextFromPdf \<lparr> getText = Inr (JStr rawPdfText, JNum (Finite 1)), destroyFails = False \<rparr>
       = Inr (''This plan starts March 2024.'', JNum (Finite 1))
   \<and> truncateText ''This plan starts March 2024.'' 12000 = documentTextOf rawPdfText"
proof -
  let ?run = "\<lparr> getText = Inr (JStr rawPdfText, JNum (Finite 1)), destroyFails = False \<rparr>"
  have c: "cleanText rawPdfText = ''This plan starts March 2024.''"
    by code_simp
  have l: "length (cleanText rawPdfText) \<le> 12000"
    unfolding c by simp
  have n: "CHR 0x00 \<notin> set rawPdfText"
    by code_simp
  have e: "extractTextFromPdf ?run = Inr (''This plan starts March 2024.'', JNum (Finite 1))"
    by code_simp
  have g: "getText ?run = Inr (JStr rawPdfText, JNum (Finite 1))
           \<and> extractTextFromPdf ?run = Inr (''This plan starts March 2024.'', JNum (Finite 1))"
    using e by simp
  note T = document_text [of rawPdfText ?run "JNum (Finite 1)" "''This plan starts March 2024.''"
      "JNum (Finite 1)"]
  from T [THEN conjunct2, THEN conjunct2, THEN conjunct1] l
  have d: "documentTextOf rawPdfText = cleanText rawPdfText"
    by (rule mp)
  from T [THEN conjunct2, THEN conjunct2, THEN conjunct2, THEN conjunct2, THEN conjunct1] n
  have s: "singleSpaced (documentTextOf rawPdfText)"
    by (rule mp)
  from T [THEN conjunct2, THEN conjunct2, THEN conjunct2, THEN conjunct2, THEN conjunct2] g
  have t: "truncateText ''This plan starts March 2024.'' 12000 = documentTextOf rawPdfText"
    by (rule mp)
  from d have d': "documentTextOf rawPdfText = ''This plan starts March 2024.''"
    unfolding c .
  show ?thesis by (intro conjI; (rule l n d' s e t))
qed

text \<open>Claim C8 as written fails: the control character BEL is not stripped.\<close>

theorem document_text_counterexample:
  "isControl (CHR 0x07)
   \<and> documentTextOf [CHR ''a'', CHR 0x07, CHR ''b''] = [CHR ''a'', CHR 0x07, CHR ''b'']"
  by code_simp

text \<open>The NUL characters are removed after the white space has been collapsed, so a
  NUL between two spaces leaves two spaces behind.\<close>

lemma document_text_nul_between_spaces:
  "documentTextOf [CHR ''a'', CHR '' '', CHR 0x00, CHR '' '', CHR ''b'']
     = [CHR ''a'', CHR '' '', CHR '' '', CHR ''b'']"
  by code_simp

section \<open>Rejected requests\<close>

lemma truncate_empty: "truncateText t 12000 = [] \<longleftrightarrow> t = []"
  by (auto simp: truncateText_def)

lemma take_cleanRules_empty: "take 10 (cleanRules xs) = [] \<longleftrightarrow> cleanRules xs = []"
  by simp

lemma handler_defective:
  assumes "requestDefective rt pdf req"
  shows "isRejected (checkHandler rt cfg reg pdf req)"
proof (cases "pdfFile req")
  case None
  then show ?thesis by (simp add: checkHandler_def)
next
  case (Some buffer)
  show ?thesis
  proof (cases "truthy (rawRules req)")
    case False
    with Some show ?thesis by (simp add: checkHandler_def)
  next
    case True
    show ?thesis
    proof (cases "\<exists>xs. rulesOf rt (rawRules req) = JArr xs")
      case False
      then have "normalizeRules (rulesOf rt (rawRules req)) = Inl TypeError"
        by (auto simp: normalizeRules_def split: jsval.splits)
      with Some True show ?thesis by (simp add: checkHandler_def unexpected_def)
    next
      case True
      then obtain xs where xs: "rulesOf rt (rawRules req) = JArr xs" by blast
      then have nr: "normalizeRules (rulesOf rt (rawRules req)) = Inr (take 10 (cleanRules xs))"
        by (simp add: normalizeRules_def)
      show ?thesis
      proof (cases "cleanRules xs = []")
        case True
        with Some \<open>truthy (rawRules req)\<close> nr show ?thesis by (simp add: checkHandler_def)
      next
        case False
        with assms Some \<open>truthy (rawRules req)\<close> xs
        have d: "case extractTextFromPdf (pdf buffer) of Inl e \<Rightarrow> True | Inr (t, pg) \<Rightarrow> t = []"
          by (simp add: requestDefective_def)
        show ?thesis
        proof (cases "extractTextFromPdf (pdf buffer)")
          case (Inl e)
          with Some \<open>truthy (rawRules req)\<close> nr False show ?thesis
            by (simp add: checkHandler_def unexpected_def Let_def)
        next
          case (Inr tp)
          with d have "fst tp = []" by (cases tp) simp
          with Inr Some \<open>truthy (rawRules req)\<close> nr False show ?thesis
            by (cases tp) (simp add: checkHandler_def Let_def truncate_empty)
        qed
      qed
    qed
  qed
qed

lemma handler_sound:
  assumes "\<not> requestDefective rt pdf req"
  shows "\<exists>buf xs t pg. pdfFile req = Some buf \<and> rulesOf rt (rawRules req) = JArr xs
           \<and> extractTextFromPdf (pdf buf) = Inr (t, pg)
           \<and> checkHandler rt cfg reg pdf req =
               Success \<lparr> pageCount = pg,
                         model = resolvedModel cfg (effectiveProviderOf reg (rawProvider req)),
                         textLength = length (truncateText t 12000) \<rparr>
                 (evaluateAll rt reg (take 10 (cleanRules xs)) (truncateText t 12000)
                    (effectiveProviderOf reg (rawProvider req)))"
proof -
  from assms obtain buf where buf: "pdfFile req = Some buf"
    by (auto simp: requestDefective_def split: option.splits)
  from assms buf have tr: "truthy (rawRules req)"
    by (auto simp: requestDefective_def split: if_splits)
  from assms buf tr obtain xs where xs: "rulesOf rt (rawRules req) = JArr xs"
    by (auto simp: requestDefective_def split: jsval.splits)
  from assms buf tr xs have ne: "cleanRules xs \<noteq> []"
    by (auto simp: requestDefective_def split: if_splits)
  from assms buf tr xs ne obtain t pg where ex: "extractTextFromPdf (pdf buf) = Inr (t, pg)"
    and t: "t \<noteq> []"
    by (auto simp: requestDefective_def split: sum.splits)
  have nr: "normalizeRules (rulesOf rt (rawRules req)) = Inr (take 10 (cleanRules xs))"
    using xs by (simp add: normalizeRules_def)
  have "checkHandler rt cfg reg pdf req =
               Success \<lparr> pageCount = pg,
                         model = resolvedModel cfg (effectiveProviderOf reg (rawProvider req)),
                         textLength = length (truncateText t 12000) \<rparr>
                 (evaluateAll rt reg (take 10 (cleanRules xs)) (truncateText t 12000)
                    (effectiveProviderOf reg (rawProvider req)))"
    using buf tr nr ne ex t by (simp add: checkHandler_def Let_def truncate_empty)
  with buf xs ex show ?thesis by blast
qed

lemma verdicts_rejected: "isRejected resp \<Longrightarrow> verdictsOf resp = []"
  by (cases resp) simp_all

text \<open>
  Claim C9, as amended.  A defective request (no file, no rules field, a rules value that
  is not a list, no rule left after the entries that are not text or blank are
  discarded, a document whose extraction fails or gives no text) is rejected before any
  rule is evaluated: the response carries no verdict.  Every other request succeeds with
  the verdicts of its kept rules, whatever the backends do: nothing inside the evaluation
  of a rule aborts the batch.  Entries that are not text are discarded, not rejected.
\<close>

theorem handler_rejections:
  "(requestDefective rt pdf req \<longrightarrow>
      isRejected (checkHandler rt cfg reg pdf req)
      \<and> verdictsOf (checkHandler rt cfg reg pdf req) = [])
   \<and> (\<not> requestDefective rt pdf req \<longrightarrow>
        \<not> isRejected (checkHandler rt cfg reg pdf req)
        \<and> (\<exists>buf xs t pg. pdfFile req = Some buf \<and> rulesOf rt (rawRules req) = JArr xs
              \<and> extractTextFromPdf (pdf buf) = Inr (t, pg)
              \<and> checkHandler rt cfg reg pdf req =
                  Success \<lparr> pageCount = pg,
                            model = resolvedModel cfg (effectiveProviderOf reg (rawProvider req)),
                            textLength = length (truncateText t 12000) \<rparr>
                    (evaluateAll rt reg (take 10 (cleanRules xs)) (truncateText t 12000)
                       (effectiveProviderOf reg (rawProvider req)))))"
proof (intro conjI impI)
  assume "requestDefective rt pdf req"
  then show "isRejected (checkHandler rt cfg reg pdf req)" by (rule handler_defective)
next
  assume "requestDefective rt pdf req"
  then have "isRejected (checkHandler rt cfg reg pdf req)" by (rule handler_defective)
  then show "verdictsOf (checkHandler rt cfg reg pdf req) = []" by (rule verdicts_rejected)
next
  assume "\<not> requestDefective rt pdf req"
  then show "\<not> isRejected (checkHandler rt cfg reg pdf req)"
    using handler_sound [of rt pdf req cfg reg] by auto
next
  assume "\<not> requestDefective rt pdf req"
  then show "\<exists>buf xs t pg. pdfFile req = Some buf \<and> rulesOf rt (rawRules req) = JArr xs
              \<and> extractTextFromPdf (pdf buf) = Inr (t, pg)
              \<and> checkHandler rt cfg reg pdf req =
                  Success \<lparr> pageCount = pg,
                            model = resolvedModel cfg (effectiveProviderOf reg (rawProvider req)),
                            textLength = length (truncateText t 12000) \<rparr>
                    (evaluateAll rt reg (take 10 (cleanRules xs)) (truncateText t 12000)
                       (effectiveProviderOf reg (rawProvider req)))"
    by (rule handler_sound)
qed

theorem handler_rejections_witness:
  "requestDefective demoRuntime demoPdf noFileRequest
   \<and> isRejected (checkHandler demoRuntime noKeys (initRegistry noKeys demoSdks) demoPdf
        noFileRequest)
   \<and> requestDefective demoRuntime demoPdf mixedRequest = False
   \<and> isRejected (checkHandler demoRuntime noKeys (initRegistry noKeys demoSdks) demoPdf
        mixedRequest) = False"
proof -
  have d1: "requestDefective demoRuntime demoPdf noFileRequest"
    by code_simp
  have d2: "\<not> requestDefective demoRuntime demoPdf mixedRequest"
    by code_simp
  from handler_rejections [of demoRuntime demoPdf noFileRequest noKeys
      "initRegistry noKeys demoSdks", THEN conjunct1] d1
  have c1: "isRejected (checkHandler demoRuntime noKeys (initRegistry noKeys demoSdks) demoPdf
        noFileRequest)
      \<and> verdictsOf (checkHandler demoRuntime noKeys (initRegistry noKeys demoSdks) demoPdf
        noFileRequest) = []"
    by (rule mp)
  from handler_rejections [of demoRuntime demoPdf mixedRequest noKeys
      "initRegistry noKeys demoSdks", THEN conjunct2] d2
  have c2: "\<not> isRejected (checkHandler demoRuntime noKeys (initRegistry noKeys demoSdks) demoPdf
        mixedRequest)
        \<and> (\<exists>buf xs t pg. pdfFile mixedRequest = Some buf
              \<and> rulesOf demoRuntime (rawRules mixedRequest) = JArr xs
              \<and> extractTextFromPdf (demoPdf buf) = Inr (t, pg)
              \<and> checkHandler demoRuntime noKeys (initRegistry noKeys demoSdks) demoPdf mixedRequest =
                  Success \<lparr> pageCount = pg,
                            model = resolvedModel noKeys
                              (effectiveProviderOf (initRegistry noKeys demoSdks)
                                 (rawProvider mixedRequest)),
                            textLength = length (truncateText t 12000) \<rparr>
                    (evaluateAll demoRuntime (initRegistry noKeys demoSdks)
                       (take 10 (cleanRules xs)) (truncateText t 12000)
                       (effectiveProviderOf (initRegistry noKeys demoSdks)
                          (rawProvider mixedRequest))))"
    by (rule mp)
  from d1 d2 c1 c2 show ?thesis by simp
qed

text \<open>Claim C9 as written fails: a request whose rules hold an entry that is not text
  (the number 5) next to a text rule is not rejected; the text rule is evaluated.\<close>

theorem handler_rejections_counterexample:
  "jsonParse demoRuntime mixedRulesField
     = Some (JArr [JStr ''must mention a date'', JNum (Finite 5)])
   \<and> \<not> isRejected (checkHandler demoRuntime noKeys (initRegistry noKeys demoSdks) demoPdf
          mixedRequest)
   \<and> map rule (verdictsOf (checkHandler demoRuntime noKeys (initRegistry noKeys demoSdks)
        demoPdf mixedRequest)) = [''must mention a date'']"
  by code_simp

section \<open>More than ten rules\<close>

text \<open>The handler looks at its rules only through the first ten cleaned ones.\<close>

lemma cleanRules_JStr:
  assumes "\<forall>r \<in> set zs. trim r = r \<and> r \<noteq> []"
  shows "cleanRules (map JStr zs) = zs"
proof -
  have "map (\<lambda>r. case r of JStr s \<Rightarrow> trim s | _ \<Rightarrow> []) (map JStr zs) = map trim zs"
    by simp
  also have "\<dots> = zs" using assms by (simp add: map_idI)
  finally have "cleanRules (map JStr zs) = filter (\<lambda>r. r \<noteq> []) zs"
    by (simp only: cleanRules_def)
  also have "\<dots> = zs" using assms by (simp add: filter_id_conv)
  finally show ?thesis .
qed

lemma cleanRules_first_ten:
  "take 10 (cleanRules (map JStr (take 10 (cleanRules xs)))) = take 10 (cleanRules xs)"
proof -
  have "\<forall>r \<in> set (take 10 (cleanRules xs)). trim r = r \<and> r \<noteq> []"
    using cleanRules_trimmed by (metis in_set_takeD)
  then have "cleanRules (map JStr (take 10 (cleanRules xs))) = take 10 (cleanRules xs)"
    by (rule cleanRules_JStr)
  then show ?thesis by simp
qed

lemma handler_depends:
  assumes "truthy (rawRules r1)" and "truthy (rawRules r2)"
    and "rulesOf rt (rawRules r1) = JArr xs" and "rulesOf rt (rawRules r2) = JArr ys"
    and "take 10 (cleanRules xs) = take 10 (cleanRules ys)"
    and "pdfFile r1 = pdfFile r2" and "rawProvider r1 = rawProvider r2"
  shows "checkHandler rt cfg reg pdf r1 = checkHandler rt cfg reg pdf r2"
proof -
  have n1: "normalizeRules (rulesOf rt (rawRules r1)) = Inr (take 10 (cleanRules xs))"
    by (simp add: assms(3) normalizeRules_def)
  have n2: "normalizeRules (rulesOf rt (rawRules r2)) = Inr (take 10 (cleanRules xs))"
    by (simp add: assms(4) assms(5) normalizeRules_def)
  show ?thesis
    unfolding checkHandler_def n1 n2 assms(6) assms(7)
    using assms(1) assms(2) by (cases "pdfFile r2") simp_all
qed

text \<open>
  Claim C10.  When the rule list of a request, after trimming and after removing the
  entries that are not text or are blank, holds more than 10 rules, the response is the
  very response to the request that carries the first 10 of them only: nothing in it
  tells that rules were dropped.  If the request is not defective it succeeds, with
  exactly 10 verdicts, those of the first 10 rules in order.
\<close>

theorem excess_rules_dropped:
  "truthy (rawRules req) \<and> rulesOf rt (rawRules req) = JArr xs \<and> 10 < length (cleanRules xs)
   \<longrightarrow> checkHandler rt cfg reg pdf req
         = checkHandler rt cfg reg pdf
             (req\<lparr> rawRules := JArr (map JStr (take 10 (cleanRules xs))) \<rparr>)
       \<and> (\<not> requestDefective rt pdf req \<longrightarrow>
             \<not> isRejected (checkHandler rt cfg reg pdf req)
             \<and> length (verdictsOf (checkHandler rt cfg reg pdf req)) = 10
             \<and> map rule (verdictsOf (checkHandler rt cfg reg pdf req)) = take 10 (cleanRules xs))"
proof (intro impI conjI)
  assume a: "truthy (rawRules req) \<and> rulesOf rt (rawRules req) = JArr xs
             \<and> 10 < length (cleanRules xs)"
  let ?req' = "req\<lparr> rawRules := JArr (map JStr (take 10 (cleanRules xs))) \<rparr>"
  have r2: "rulesOf rt (rawRules ?req') = JArr (map JStr (take 10 (cleanRules xs)))"
    by (simp add: rulesOf_def)
  show "checkHandler rt cfg reg pdf req = checkHandler rt cfg reg pdf ?req'"
  proof (rule handler_depends)
    show "truthy (rawRules req)" using a by simp
    show "truthy (rawRules ?req')" by simp
    show "rulesOf rt (rawRules req) = JArr xs" using a by simp
    show "rulesOf rt (rawRules ?req') = JArr (map JStr (take 10 (cleanRules xs)))" by (rule r2)
    show "take 10 (cleanRules xs) = take 10 (cleanRules (map JStr (take 10 (cleanRules xs))))"
      by (simp only: cleanRules_first_ten)
    show "pdfFile req = pdfFile ?req'" by simp
    show "rawProvider req = rawProvider ?req'" by simp
  qed
next
  assume a: "truthy (rawRules req) \<and> rulesOf rt (rawRules req) = JArr xs
             \<and> 10 < length (cleanRules xs)"
    and nd: "\<not> requestDefective rt pdf req"
  from nd show "\<not> isRejected (checkHandler rt cfg reg pdf req)"
    using handler_sound [of rt pdf req cfg reg] by auto
next
  assume a: "truthy (rawRules req) \<and> rulesOf rt (rawRules req) = JArr xs
             \<and> 10 < length (cleanRules xs)"
    and nd: "\<not> requestDefective rt pdf req"
  from handler_sound [OF nd, of cfg reg] a
  obtain t where "verdictsOf (checkHandler rt cfg reg pdf req)
      = evaluateAll rt reg (take 10 (cleanRules xs)) (truncateText t 12000)
          (effectiveProviderOf reg (rawProvider req))"
    by auto
  then show "length (verdictsOf (checkHandler rt cfg reg pdf req)) = 10"
    using a by (simp add: length_evaluateAll)
next
  assume a: "truthy (rawRules req) \<and> rulesOf rt (rawRules req) = JArr xs
             \<and> 10 < length (cleanRules xs)"
    and nd: "\<not> requestDefective rt pdf req"
  from handler_sound [OF nd, of cfg reg] a
  obtain t where v: "verdictsOf (checkHandler rt cfg reg pdf req)
      = evaluateAll rt reg (take 10 (cleanRules xs)) (truncateText t 12000)
          (effectiveProviderOf reg (rawProvider req))"
    by auto
  have "map trim (take 10 (cleanRules xs)) = take 10 (cleanRules xs)"
    using cleanRules_trimmed by (intro map_idI) (metis in_set_takeD)
  then show "map rule (verdictsOf (checkHandler rt cfg reg pdf req)) = take 10 (cleanRules xs)"
    unfolding v by (simp only: rules_evaluateAll)
qed

theorem excess_rules_dropped_witness:
  "length (cleanRules elevenRules) = 11
   \<and> length (verdictsOf (checkHandler demoRuntime noKeys (initRegistry noKeys demoSdks) demoPdf
        elevenRequest)) = 10
   \<and> map rule (verdictsOf (checkHandler demoRuntime noKeys (initRegistry noKeys demoSdks)
        demoPdf elevenRequest)) = tenRules
   \<and> checkHandler demoRuntime noKeys (initRegistry noKeys demoSdks) demoPdf elevenRequest
      = checkHandler demoRuntime noKeys (initRegistry noKeys demoSdks) demoPdf
          (elevenRequest\<lparr> rawRules := JArr (map JStr tenRules) \<rparr>)"
proof -
  have l: "length (cleanRules elevenRules) = 11"
    by code_simp
  have tk: "take 10 (cleanRules elevenRules) = tenRules"
    by code_simp
  have h: "truthy (rawRules elevenRequest)
           \<and> rulesOf demoRuntime (rawRules elevenRequest) = JArr elevenRules
           \<and> 10 < length (cleanRules elevenRules)"
    unfolding l by (simp add: elevenRequest_def rulesOf_def)
  have nd: "\<not> requestDefective demoRuntime demoPdf elevenRequest"
    by code_simp
  from excess_rules_dropped [of elevenRequest demoRuntime elevenRules noKeys
      "initRegistry noKeys demoSdks" demoPdf] h
  have c: "checkHandler demoRuntime noKeys (initRegistry noKeys demoSdks) demoPdf elevenRequest
         = checkHandler demoRuntime noKeys (initRegistry noKeys demoSdks) demoPdf
             (elevenRequest\<lparr> rawRules := JArr (map JStr (take 10 (cleanRules elevenRules))) \<rparr>)
       \<and> (\<not> requestDefective demoRuntime demoPdf elevenRequest \<longrightarrow>
             \<not> isRejected (checkHandler demoRuntime noKeys (initRegistry noKeys demoSdks) demoPdf
                  elevenRequest)
             \<and> length (verdictsOf (checkHandler demoRuntime noKeys (initRegistry noKeys demoSdks)
                  demoPdf elevenRequest)) = 10
             \<and> map rule (verdictsOf (checkHandler demoRuntime noKeys
                  (initRegistry noKeys demoSdks) demoPdf elevenRequest))
                = take 10 (cleanRules elevenRules))"
    by (rule mp)
  from c [THEN conjunct2] nd
  have c2: "\<not> isRejected (checkHandler demoRuntime noKeys (initRegistry noKeys demoSdks) demoPdf
                  elevenRequest)
             \<and> length (verdictsOf (checkHandler demoRuntime noKeys (initRegistry noKeys demoSdks)
                  demoPdf elevenRequest)) = 10
             \<and> map rule (verdictsOf (checkHandler demoRuntime noKeys
                  (initRegistry noKeys demoSdks) demoPdf elevenRequest))
                = take 10 (cleanRules elevenRules)"
    by (rule mp)
  from c [THEN conjunct1] c2 l show ?thesis
    unfolding tk by simp
qed

section \<open>What holds of every verdict\<close>

text \<open>The heuristic verdict is well formed in every field.\<close>

lemma fallback_text_fields:
  "\<exists>e r. evidence (buildFallbackResult r0 d) = JStr e \<and> e \<noteq> []
         \<and> reasoning (buildFallbackResult r0 d) = JStr r \<and> r \<noteq> []"
proof -
  let ?P = "\<lambda>sentence. list_ex (\<lambda>keyword. str_includes (toLowerCase sentence) (toLowerCase keyword))
              (matchesOf (keywordsOf (trim r0)) d)"
  have nonempty: "s \<noteq> []" if "find ?P (sentenceSplitter d) = Some s" for s
  proof -
    from that have "s \<in> set (sentenceSplitter d)"
      by (auto simp: find_Some_iff)
    then show ?thesis by (simp add: sentenceSplitter_def)
  qed
  have ev: "\<exists>e. evidence (buildFallbackResult r0 d) = JStr e \<and> e \<noteq> []"
  proof (cases "find ?P (sentenceSplitter d)")
    case None
    then show ?thesis by (simp add: buildFallbackResult_def Let_def)
  next
    case (Some s)
    then have "s \<noteq> []" by (rule nonempty)
    with Some show ?thesis by (simp add: buildFallbackResult_def Let_def)
  qed
  have re: "\<exists>r. reasoning (buildFallbackResult r0 d) = JStr r \<and> r \<noteq> []"
    by (simp add: buildFallbackResult_def Let_def)
  from ev re show ?thesis by blast
qed

lemma fallback_wellformed:
  "rule (buildFallbackResult r0 d) = trim r0
   \<and> (status (buildFallbackResult r0 d) = ''pass'' \<or> status (buildFallbackResult r0 d) = ''fail'')
   \<and> truthy (evidence (buildFallbackResult r0 d))
   \<and> truthy (reasoning (buildFallbackResult r0 d))
   \<and> (confidence (buildFallbackResult r0 d) = Finite 55
        \<or> confidence (buildFallbackResult r0 d) = Finite 35)
   \<and> source (buildFallbackResult r0 d) = ''heuristic''"
proof -
  obtain e r where "evidence (buildFallbackResult r0 d) = JStr e" "e \<noteq> []"
    "reasoning (buildFallbackResult r0 d) = JStr r" "r \<noteq> []"
    using fallback_text_fields by blast
  then have "truthy (evidence (buildFallbackResult r0 d))"
    "truthy (reasoning (buildFallbackResult r0 d))"
    by simp_all
  moreover have "status (buildFallbackResult r0 d) = ''pass''
      \<or> status (buildFallbackResult r0 d) = ''fail''"
    by (simp add: status_fallback)
  moreover have "confidence (buildFallbackResult r0 d) = Finite 55
        \<or> confidence (buildFallbackResult r0 d) = Finite 35"
    by (simp add: confidence_fallback)
  ultimately show ?thesis by (simp add: rule_fallback source_fallback)
qed

lemma fromParsed_fields:
  assumes "fromParsed parsed fb src = Inr v" and "truthy (evidence fb)" and "truthy (reasoning fb)"
    and "\<exists>k::int. 0 \<le> k \<and> k \<le> 100 \<and> confidence fb = Finite (of_int k)"
  shows "(status v = ''pass'' \<or> status v = ''fail'') \<and> truthy (evidence v) \<and> truthy (reasoning v)
         \<and> (\<exists>k::int. 0 \<le> k \<and> k \<le> 100 \<and> confidence v = Finite (of_int k)) \<and> source v = src"
proof -
  from assms(1) obtain isPass where v: "v =
      \<lparr> rule = rule fb,
        status = (if isPass then ''pass'' else ''fail''),
        evidence = js_or (getPropOpt parsed ''evidence'') (evidence fb),
        reasoning = js_or (getPropOpt parsed ''reasoning'') (reasoning fb),
        confidence =
          (case getPropOpt parsed ''confidence'' of
             JNum n \<Rightarrow> clampConfidence n
           | _ \<Rightarrow> confidence fb),
        source = src \<rparr>"
    by (auto simp: fromParsed_def split: sum.splits)
  have c: "\<exists>k::int. 0 \<le> k \<and> k \<le> 100 \<and> confidence v = Finite (of_int k)"
  proof (cases "getPropOpt parsed ''confidence''")
    case (JNum n)
    then have "confidence v = clampConfidence n" by (simp add: v)
    then show ?thesis using clampConfidence_range [of n] by simp
  qed (use assms(4) in \<open>simp_all add: v\<close>)
  have "truthy (evidence v)" "truthy (reasoning v)"
    using assms(2,3) by (simp_all add: v js_or_def)
  moreover have "status v = ''pass'' \<or> status v = ''fail''" by (simp add: v)
  moreover have "source v = src" by (simp add: v)
  ultimately show ?thesis using c by blast
qed

lemma parseLLMJson_cases:
  "parseLLMJson rt content fb src = fb
   \<or> (\<exists>parsed. fromParsed parsed fb src = Inr (parseLLMJson rt content fb src))"
proof (cases "parseLLMJsonBody rt content fb src")
  case (Inl e)
  then show ?thesis by (simp add: parseLLMJson_def)
next
  case (Inr v)
  then have "v = fb \<or> (\<exists>parsed. fromParsed parsed fb src = Inr v)"
    by (auto simp: parseLLMJsonBody_def split: jsval.splits option.splits)
  with Inr show ?thesis by (simp add: parseLLMJson_def)
qed

lemma llmAttempt_sources:
  assumes "llmAttempt rt reg k p prompt fb = Inr v"
  shows "v = fb \<or> (\<exists>c. v = parseLLMJson rt c fb ''openai'')
         \<or> (\<exists>c. v = parseLLMJson rt c fb ''mistral'')
         \<or> (\<exists>c. v = parseLLMJson rt c fb ''groq'')"
proof (cases "if p = ''openai'' then openai reg else None")
  case (Some c)
  with assms have "openaiBranch rt (c k prompt) fb = Inr v" by (simp add: llmAttempt_def)
  then show ?thesis using openaiBranch_cases by blast
next
  case n1: None
  show ?thesis
  proof (cases "if p = ''mistral'' then mistral reg else None")
    case (Some c)
    with assms n1 have "mistralBranch rt (c k prompt) fb = Inr v" by (simp add: llmAttempt_def)
    then show ?thesis using mistralBranch_cases by blast
  next
    case n2: None
    show ?thesis
    proof (cases "if p = ''groq'' then groq reg else None")
      case (Some c)
      with assms n1 n2 have "groqBranch rt (c k prompt) fb = Inr v" by (simp add: llmAttempt_def)
      then show ?thesis using groqBranch_cases by blast
    next
      case None
      with assms n1 n2 show ?thesis by (simp add: llmAttempt_def)
    qed
  qed
qed

lemma evaluate_sources:
  "evaluateRuleWithLLM rt reg k r d provider = buildFallbackResult r d
   \<or> (\<exists>c src. (src = ''openai'' \<or> src = ''mistral'' \<or> src = ''groq'')
         \<and> evaluateRuleWithLLM rt reg k r d provider
             = parseLLMJson rt c (buildFallbackResult r d) src)"
proof (cases "llmAttempt rt reg k (providerOrActive reg provider) (buildPrompt r d)
                (buildFallbackResult r d)")
  case (Inl e)
  then show ?thesis by (simp add: evaluateRuleWithLLM_def Let_def)
next
  case (Inr v)
  then have "v = buildFallbackResult r d
      \<or> (\<exists>c. v = parseLLMJson rt c (buildFallbackResult r d) ''openai'')
      \<or> (\<exists>c. v = parseLLMJson rt c (buildFallbackResult r d) ''mistral'')
      \<or> (\<exists>c. v = parseLLMJson rt c (buildFallbackResult r d) ''groq'')"
    by (rule llmAttempt_sources)
  then have "v = buildFallbackResult r d
      \<or> (\<exists>c src. (src = ''openai'' \<or> src = ''mistral'' \<or> src = ''groq'')
            \<and> v = parseLLMJson rt c (buildFallbackResult r d) src)"
    by blast
  moreover have "evaluateRuleWithLLM rt reg k r d provider = buildFallbackResult r d
      \<or> evaluateRuleWithLLM rt reg k r d provider = v"
    using Inr by (simp add: evaluateRuleWithLLM_def Let_def)
  ultimately show ?thesis by blast
qed

text \<open>What does hold of every verdict: all of claim C2 but the type of evidence and
  reasoning, which are truthy values.\<close>

lemma verdict_fields:
  "rule (evaluateRuleWithLLM rt reg k r d provider) = trim r
   \<and> (status (evaluateRuleWithLLM rt reg k r d provider) = ''pass''
        \<or> status (evaluateRuleWithLLM rt reg k r d provider) = ''fail'')
   \<and> truthy (evidence (evaluateRuleWithLLM rt reg k r d provider))
   \<and> truthy (reasoning (evaluateRuleWithLLM rt reg k r d provider))
   \<and> (\<exists>n::int. 0 \<le> n \<and> n \<le> 100
         \<and> confidence (evaluateRuleWithLLM rt reg k r d provider) = Finite (of_int n))
   \<and> source (evaluateRuleWithLLM rt reg k r d provider)
        \<in> {''heuristic'', ''openai'', ''mistral'', ''groq''}"
proof -
  let ?fb = "buildFallbackResult r d"
  let ?v = "evaluateRuleWithLLM rt reg k r d provider"
  note wf = fallback_wellformed [of r d]
  note st = wf [THEN conjunct2, THEN conjunct1]
  note te = wf [THEN conjunct2, THEN conjunct2, THEN conjunct1]
  note tr = wf [THEN conjunct2, THEN conjunct2, THEN conjunct2, THEN conjunct1]
  note co = wf [THEN conjunct2, THEN conjunct2, THEN conjunct2, THEN conjunct2, THEN conjunct1]
  note so = wf [THEN conjunct2, THEN conjunct2, THEN conjunct2, THEN conjunct2, THEN conjunct2]
  have cf: "\<exists>n::int. 0 \<le> n \<and> n \<le> 100 \<and> confidence ?fb = Finite (of_int n)"
    using co
  proof
    assume "confidence ?fb = Finite 55"
    then show ?thesis by (intro exI [of _ 55]) simp
  next
    assume "confidence ?fb = Finite 35"
    then show ?thesis by (intro exI [of _ 35]) simp
  qed
  have rest: "(status ?v = ''pass'' \<or> status ?v = ''fail'') \<and> truthy (evidence ?v)
      \<and> truthy (reasoning ?v)
      \<and> (\<exists>n::int. 0 \<le> n \<and> n \<le> 100 \<and> confidence ?v = Finite (of_int n))
      \<and> source ?v \<in> {''heuristic'', ''openai'', ''mistral'', ''groq''}"
  proof (cases "?v = ?fb")
    case True
    have "source ?fb \<in> {''heuristic'', ''openai'', ''mistral'', ''groq''}"
      unfolding so by (rule insertI1)
    with te tr st cf show ?thesis unfolding True by (intro conjI)
  next
    case False
    with evaluate_sources [of rt reg k r d provider]
    obtain c src where src: "src = ''openai'' \<or> src = ''mistral'' \<or> src = ''groq''"
      and v: "?v = parseLLMJson rt c ?fb src"
      by blast
    from False have "parseLLMJson rt c ?fb src \<noteq> ?fb" unfolding v .
    with parseLLMJson_cases [of rt c ?fb src]
    obtain parsed where "fromParsed parsed ?fb src = Inr (parseLLMJson rt c ?fb src)"
      by blast
    then have fp: "fromParsed parsed ?fb src = Inr ?v" by (simp only: v)
    have f: "(status ?v = ''pass'' \<or> status ?v = ''fail'') \<and> truthy (evidence ?v)
         \<and> truthy (reasoning ?v)
         \<and> (\<exists>n::int. 0 \<le> n \<and> n \<le> 100 \<and> confidence ?v = Finite (of_int n)) \<and> source ?v = src"
      using fp te tr cf by (rule fromParsed_fields)
    from src have s4: "src \<in> {''heuristic'', ''openai'', ''mistral'', ''groq''}"
      by (elim disjE) simp_all
    from f have sv: "source ?v = src" by (elim conjE)
    from s4 have "source ?v \<in> {''heuristic'', ''openai'', ''mistral'', ''groq''}"
      unfolding sv .
    with f show ?thesis by (elim conjE) (intro conjI)
  qed
  have "rule ?v = trim r" by (rule evaluate_rule)
  with rest show ?thesis by (intro conjI) (elim conjE, assumption)+
qed

end
